theory Spec2Isabelle
  imports Complex_Main "HOL-Library.Sublist"
begin

section \<open>Panics\<close>

text \<open>
  Every panic of the package (and the division by zero of math/big) is a value of
  this type; a function that may panic returns \<open>panic + 'a\<close>.
\<close>

datatype panic =
    DivisionByZero
  | DenominatorMustBePositive
  | NumeratorMustBeNonNegative
  | ContextClosed
  | LimitMustBeNonNegative
  | IndexMustBeNonNegative
  | SigDigitsLessThanExponent
  | IndexOutOfRange
  | InvalidMemoryAddress
  | InterfaceConversion

section \<open>math/big as used by the package\<close>

text \<open>
  \<open>big.Int\<close> is an unbounded integer, so it is \<open>int\<close>. \<open>Div\<close> and \<open>DivMod\<close> are
  Euclidean (the modulus is never negative) and panic on a zero divisor.
\<close>

definition big_DivMod :: "int \<Rightarrow> int \<Rightarrow> panic + (int \<times> int)" where
  "big_DivMod x y =
     (if y = 0 then Inl DivisionByZero
      else if 0 < y then Inr (x div y, x mod y)
      else Inr (- (x div (- y)), x mod (- y)))"

definition big_Div :: "int \<Rightarrow> int \<Rightarrow> panic + int" where
  "big_Div x y = (case big_DivMod x y of Inl e \<Rightarrow> Inl e | Inr (q, m) \<Rightarrow> Inr q)"

section \<open>rootManager: sqrtManager and cubeRootManager\<close>

text \<open>
  The interface has two implementations. \<open>sqrtManager\<close> has no fields;
  \<open>cubeRootManager\<close> holds \<open>incr2\<close>. The methods mutate \<open>incr\<close> (and \<open>incr2\<close>) in
  place, so each returns the manager and the increment after the call. Every
  \<open>big.Int\<close> statement of the source is one binding of the \<open>let\<close>.
\<close>

datatype rootManager = SqrtManager | CubeRootManager int

definition newSqrtManager :: rootManager where
  "newSqrtManager = SqrtManager"

definition newCubeRootManager :: rootManager where
  "newCubeRootManager = CubeRootManager 6"

fun Next :: "rootManager \<Rightarrow> int \<Rightarrow> rootManager \<times> int" where
  "Next SqrtManager incr = (let incr = incr + 2 in (SqrtManager, incr))"
| "Next (CubeRootManager incr2) incr =
     (let incr = incr + incr2;
          incr2 = incr2 + 6
      in (CubeRootManager incr2, incr))"

fun NextDigit :: "rootManager \<Rightarrow> int \<Rightarrow> rootManager \<times> int" where
  "NextDigit SqrtManager incr =
     (let incr = incr - 1;
          incr = incr * 10;
          incr = incr + 1
      in (SqrtManager, incr))"
| "NextDigit (CubeRootManager incr2) incr =
     (let incr = incr * 100;
          temp = incr2 * 45;
          incr = incr - temp;
          incr = incr + 171;
          incr2 = incr2 * 10;
          incr2 = incr2 - 54
      in (CubeRootManager incr2, incr))"

fun Base :: "rootManager \<Rightarrow> int" where
  "Base SqrtManager = 100"
| "Base (CubeRootManager incr2) = 1000"

subsection \<open>The recurrences as the specification words them\<close>

definition spec_sqrt_next :: "int \<Rightarrow> int" where
  "spec_sqrt_next incr = incr + 2"

definition spec_sqrt_nextDigit :: "int \<Rightarrow> int" where
  "spec_sqrt_nextDigit incr = (incr - 1) * 10 + 1"

definition spec_sqrt_base :: int where
  "spec_sqrt_base = 100"

definition spec_cube_initial_incr2 :: int where
  "spec_cube_initial_incr2 = 6"

definition spec_cube_next :: "int \<times> int \<Rightarrow> int \<times> int" where
  "spec_cube_next = (\<lambda>(incr, incr2). (incr + incr2, incr2 + 6))"

definition spec_cube_nextDigit :: "int \<times> int \<Rightarrow> int \<times> int" where
  "spec_cube_nextDigit = (\<lambda>(incr, incr2). (incr * 100 - 45 * incr2 + 171, incr2 * 10 - 54))"

definition spec_cube_base :: int where
  "spec_cube_base = 1000"

section \<open>computeGroupsFromRational\<close>

text \<open>
  The closure \<open>groups\<close> captures the local copies of \<open>num\<close>, \<open>denom\<close> and \<open>base\<close>;
  only \<open>num\<close> changes between calls.
\<close>

record groups =
  g_num :: int
  g_denom :: int
  g_base :: int

text \<open>
  The two \<open>for\<close> loops. Neither ends on every input (the first never ends for
  \<open>num = 0 < denom\<close>), so not returning is the value \<open>None\<close>. The source's \<open>exp\<close>
  is written \<open>expo\<close>, \<open>exp\<close> being the exponential function here.
\<close>

partial_function (option) shiftNum :: "int \<Rightarrow> int \<Rightarrow> int \<Rightarrow> int \<Rightarrow> (int \<times> int) option" where
  "shiftNum num denom base expo =
     (if num < denom then shiftNum (num * base) denom base (expo - 1)
      else Some (num, expo))"

partial_function (option) shiftDenom :: "int \<Rightarrow> int \<Rightarrow> int \<Rightarrow> int \<Rightarrow> (int \<times> int) option" where
  "shiftDenom num denom base expo =
     (if denom \<le> num then shiftDenom num (denom * base) base (expo + 1)
      else Some (denom, expo))"

declare shiftNum.simps [code]
declare shiftDenom.simps [code]

definition computeGroupsFromRational ::
    "int \<Rightarrow> int \<Rightarrow> int \<Rightarrow> (panic + (groups \<times> int)) option" where
  "computeGroupsFromRational num denom base =
     (case shiftNum num denom base 0 of
        None \<Rightarrow> None
      | Some (num1, exp1) \<Rightarrow>
          (case (if exp1 < 0
                 then (case big_Div num1 base of
                         Inl e \<Rightarrow> Inl e
                       | Inr q \<Rightarrow> Inr (q, exp1 + 1))
                 else Inr (num1, exp1)) of
             Inl e \<Rightarrow> Some (Inl e)
           | Inr (num2, exp2) \<Rightarrow>
               (case shiftDenom num2 denom base exp2 of
                  None \<Rightarrow> None
                | Some (denom3, exp3) \<Rightarrow>
                    Some (Inr (\<lparr>g_num = num2, g_denom = denom3, g_base = base\<rparr>, exp3)))))"

text \<open>One call of the closure: \<open>None\<close> is the nil result.\<close>

definition groups_call :: "groups \<Rightarrow> panic + (int option \<times> groups)" where
  "groups_call g =
     (if g_num g = 0 then Inr (None, g)
      else (case big_DivMod (g_num g * g_base g) (g_denom g) of
              Inl e \<Rightarrow> Inl e
            | Inr (q, m) \<Rightarrow> Inr (Some q, g\<lparr>g_num := m\<rparr>)))"

section \<open>computeRootDigits\<close>

record rootDigits =
  rd_groups :: groups
  rd_manager :: rootManager
  rd_base :: int
  rd_incr :: int
  rd_remainder :: int

definition computeRootDigits :: "groups \<Rightarrow> rootManager \<Rightarrow> rootDigits" where
  "computeRootDigits gs m =
     \<lparr>rd_groups = gs, rd_manager = m, rd_base = Base m, rd_incr = 1, rd_remainder = 0\<rparr>"

text \<open>
  The inner loop \<open>for remainder.Cmp(incr) >= 0\<close>. It ends for every manager state:
  \<open>incr2\<close> grows by 6, then \<open>incr\<close> grows, then \<open>remainder\<close> shrinks.
\<close>

function digitLoop :: "rootManager \<Rightarrow> int \<Rightarrow> int \<Rightarrow> int \<Rightarrow> rootManager \<times> int \<times> int \<times> int" where
  "digitLoop m remainder incr digit =
     (if incr \<le> remainder
      then (case Next m incr of (m', incr') \<Rightarrow> digitLoop m' (remainder - incr) incr' (digit + 1))
      else (m, remainder, incr, digit))"
  by pat_completeness auto
termination
  apply (relation "measures
    [\<lambda>(m, r, i, d). (case m of SqrtManager \<Rightarrow> 0 | CubeRootManager i2 \<Rightarrow> nat (1 - i2)),
     \<lambda>(m, r, i, d). nat (1 - i),
     \<lambda>(m, r, i, d). nat (r - i + 1)]")
   apply simp
  apply (auto simp: Let_def split: rootManager.splits)
  done

definition rootDigits_call :: "rootDigits \<Rightarrow> panic + (int \<times> rootDigits)" where
  "rootDigits_call st =
     (case groups_call (rd_groups st) of
        Inl e \<Rightarrow> Inl e
      | Inr (nextGroup, gs) \<Rightarrow>
          if nextGroup = None \<and> rd_remainder st = 0 then Inr (- 1, st\<lparr>rd_groups := gs\<rparr>)
          else
            (let remainder = rd_remainder st * rd_base st;
                 remainder = (case nextGroup of None \<Rightarrow> remainder | Some g \<Rightarrow> remainder + g)
             in (case digitLoop (rd_manager st) remainder (rd_incr st) 0 of
                   (m, remainder, incr, digit) \<Rightarrow>
                     (case NextDigit m incr of
                        (m, incr) \<Rightarrow>
                          Inr (digit, \<lparr>rd_groups = gs, rd_manager = m, rd_base = rd_base st,
                                       rd_incr = incr, rd_remainder = remainder\<rparr>)))))"

text \<open>The results of the first \<open>k\<close> calls of the closure, in order.\<close>

fun rootDigits_calls :: "nat \<Rightarrow> rootDigits \<Rightarrow> panic + (int list \<times> rootDigits)" where
  "rootDigits_calls 0 st = Inr ([], st)"
| "rootDigits_calls (Suc k) st =
     (case rootDigits_call st of
        Inl e \<Rightarrow> Inl e
      | Inr (d, st') \<Rightarrow>
          (case rootDigits_calls k st' of
             Inl e \<Rightarrow> Inl e
           | Inr (ds, st'') \<Rightarrow> Inr (d # ds, st'')))"

section \<open>nrootGenerator.Generate\<close>

text \<open>
  \<open>newManager\<close> is one of the two constructors, both without arguments, so the model
  takes the manager it returns.
\<close>

definition nrootGenerator_Generate ::
    "int \<Rightarrow> int \<Rightarrow> rootManager \<Rightarrow> (panic + (rootDigits \<times> int)) option" where
  "nrootGenerator_Generate num denom newManager =
     (let manager = newManager
      in (case computeGroupsFromRational num denom (Base manager) of
            None \<Rightarrow> None
          | Some (Inl e) \<Rightarrow> Some (Inl e)
          | Some (Inr (gs, expo)) \<Rightarrow> Some (Inr (computeRootDigits gs manager, expo))))"

text \<open>
  The integer written by a list of results, most significant first, after the
  digits \<open>r\<close>; the end marker \<open>-1\<close> contributes no digit value.
\<close>

fun digitsValue :: "int \<Rightarrow> int list \<Rightarrow> int" where
  "digitsValue r [] = r"
| "digitsValue r (d # ds) = digitsValue (r * 10 + max 0 d) ds"

text \<open>The mantissa \<open>0.d1d2...dk\<close> written by the results of \<open>k\<close> calls.\<close>

definition mantissaValue :: "int list \<Rightarrow> rat" where
  "mantissaValue ds = of_int (digitsValue 0 ds) / 10 ^ length ds"

text \<open>The degree of the root a manager extracts.\<close>

fun degree :: "rootManager \<Rightarrow> nat" where
  "degree SqrtManager = 2"
| "degree (CubeRootManager incr2) = 3"

subsection \<open>Auxiliary notions for the correctness proof\<close>

text \<open>
  With \<open>x\<close> the root found so far, the increment is the difference of consecutive
  powers \<open>(x + 1)^n - x^n\<close>, and the cube-root manager holds the second difference
  \<open>6 * x + 6\<close>.
\<close>

definition powDiff :: "rootManager \<Rightarrow> int \<Rightarrow> int" where
  "powDiff m x = (x + 1) ^ degree m - x ^ degree m"

fun managerAt :: "rootManager \<Rightarrow> int \<Rightarrow> rootManager" where
  "managerAt SqrtManager x = SqrtManager"
| "managerAt (CubeRootManager i2) x = CubeRootManager (6 * x + 6)"

text \<open>
  The state of the digit closure after \<open>j\<close> calls, when the digits returned so far
  write the integer \<open>R\<close> and the normalised radicand is \<open>num2 / denom3\<close>.
\<close>

definition rdInv :: "rootManager \<Rightarrow> int \<Rightarrow> int \<Rightarrow> nat \<Rightarrow> int \<Rightarrow> rootDigits \<Rightarrow> bool" where
  "rdInv m num2 denom3 j R st \<longleftrightarrow>
     0 \<le> R \<and> 0 < denom3 \<and>
     g_denom (rd_groups st) = denom3 \<and> g_base (rd_groups st) = Base m \<and> rd_base st = Base m \<and>
     0 \<le> g_num (rd_groups st) \<and> g_num (rd_groups st) < denom3 \<and>
     (rd_remainder st + R ^ degree m) * denom3 + g_num (rd_groups st) = num2 * Base m ^ j \<and>
     0 \<le> rd_remainder st \<and> rd_remainder st < (R + 1) ^ degree m - R ^ degree m \<and>
     ((rd_incr st = powDiff m (10 * R) \<and> rd_manager st = managerAt m (10 * R)) \<or>
      (g_num (rd_groups st) = 0 \<and> rd_remainder st = 0))"

section \<open>Digit closures and generators\<close>

text \<open>
  A \<open>func() int\<close> is its captured variables. The closures of the package are the one
  of \<open>computeRootDigits\<close>, the one of \<open>repeatingGenerator.Generate\<close> (captures \<open>g.fixed\<close>,
  \<open>g.repeating\<close>, \<open>fixedIndex\<close>, \<open>repeatingIndex\<close>) and \<open>firstAndThen\<close> (captures
  \<open>firstTime\<close>, \<open>first\<close>, \<open>next\<close>). A closure that a caller's own \<open>Generator\<close> supplies is
  any Go function; the model takes the sequence of the results of its successive calls
  and the number of calls made so far.
\<close>

datatype digitsFn =
    RootDigitsFn rootDigits
  | RepeatingFn "int list" "int list" nat nat
  | FirstAndThenFn bool int digitsFn
  | UserFn "nat \<Rightarrow> int" nat

fun digits_call :: "digitsFn \<Rightarrow> panic + (int \<times> digitsFn)" where
  "digits_call (RootDigitsFn st) =
     (case rootDigits_call st of
        Inl e \<Rightarrow> Inl e
      | Inr (d, st') \<Rightarrow> Inr (d, RootDigitsFn st'))"
| "digits_call (RepeatingFn fixed repeating fixedIndex repeatingIndex) =
     (if fixedIndex < length fixed
      then Inr (fixed ! fixedIndex, RepeatingFn fixed repeating (fixedIndex + 1) repeatingIndex)
      else if length repeating = 0
      then Inr (- 1, RepeatingFn fixed repeating fixedIndex repeatingIndex)
      else if repeatingIndex < length repeating
      then Inr (repeating ! repeatingIndex,
                RepeatingFn fixed repeating fixedIndex ((repeatingIndex + 1) mod length repeating))
      else Inl IndexOutOfRange)"
| "digits_call (FirstAndThenFn firstTime first next) =
     (if firstTime then Inr (first, FirstAndThenFn False first next)
      else (case digits_call next of
              Inl e \<Rightarrow> Inl e
            | Inr (d, next') \<Rightarrow> Inr (d, FirstAndThenFn False first next')))"
| "digits_call (UserFn f calls) = Inr (f calls, UserFn f (calls + 1))"

definition firstAndThen :: "int \<Rightarrow> digitsFn \<Rightarrow> digitsFn" where
  "firstAndThen first next = FirstAndThenFn True first next"

text \<open>
  The implementations of \<open>Generator\<close>: \<open>nrootGenerator\<close>, \<open>repeatingGenerator\<close> and
  those of callers (the closure and the exponent their \<open>Generate\<close> returns).
\<close>

datatype Generator =
    NRootGenerator int int rootManager
  | RepeatingGenerator "int list" "int list" int
  | UserGenerator "nat \<Rightarrow> int" int

definition newNRootGenerator :: "int \<Rightarrow> int \<Rightarrow> rootManager \<Rightarrow> Generator" where
  "newNRootGenerator num denom newManager = NRootGenerator num denom newManager"

definition newRepeatingGenerator :: "int list \<Rightarrow> int list \<Rightarrow> int \<Rightarrow> Generator" where
  "newRepeatingGenerator fixed repeating expo = RepeatingGenerator fixed repeating expo"

fun Generate :: "Generator \<Rightarrow> (panic + (digitsFn \<times> int)) option" where
  "Generate (NRootGenerator num denom newManager) =
     (case nrootGenerator_Generate num denom newManager of
        None \<Rightarrow> None
      | Some (Inl e) \<Rightarrow> Some (Inl e)
      | Some (Inr (digits, expo)) \<Rightarrow> Some (Inr (RootDigitsFn digits, expo)))"
| "Generate (RepeatingGenerator fixed repeating expo) =
     Some (Inr (RepeatingFn fixed repeating 0 0, expo))"
| "Generate (UserGenerator f expo) = Some (Inr (UserFn f 0, expo))"

definition digitOutOfRange :: "int \<Rightarrow> bool" where
  "digitOutOfRange d \<longleftrightarrow> d < 0 \<or> d > 9"

definition validDigits :: "int list \<Rightarrow> bool" where
  "validDigits x \<longleftrightarrow> (\<forall>d \<in> set x. \<not> digitOutOfRange d)"

section \<open>The memoizer and its context\<close>

text \<open>
  The mutable objects live in a store. A \<open>context\<close> holds the counter of active
  goroutines and the closed flag; address 0 is \<open>globalNumSpecContext\<close>. A \<open>memoizer\<close>
  holds the fields of the source and the state of its goroutine: the loop counter \<open>i\<close>
  of \<open>run\<close> and whether \<open>run\<close> has returned. Objects that never change after their
  creation (\<open>limitSpec\<close>, \<open>FiniteNumber\<close>, \<open>opqNumber\<close>) are not stored: a pointer to
  one is its address together with its fields, and the store only counts the
  addresses handed out.
\<close>

record "context" =
  ctx_active :: int
  ctx_closed :: bool

record memoizer =
  m_iter :: digitsFn
  m_ctxt :: nat
  m_data :: "int list"
  m_maxLength :: int
  m_done :: bool
  m_run_i :: int
  m_run_returned :: bool

record world =
  w_contexts :: "context list"
  w_memoizers :: "memoizer list"
  w_nextLimitSpec :: nat
  w_nextFiniteNumber :: nat
  w_nextOpqNumber :: nat

definition initialWorld :: world where
  "initialWorld =
     \<lparr>w_contexts = [\<lparr>ctx_active = 0, ctx_closed = False\<rparr>], w_memoizers = [],
      w_nextLimitSpec = 0, w_nextFiniteNumber = 1, w_nextOpqNumber = 0\<rparr>"

definition deref :: "'a list \<Rightarrow> nat \<Rightarrow> panic + 'a" where
  "deref store a = (if a < length store then Inr (store ! a) else Inl InvalidMemoryAddress)"

definition kMemoizerChunkSize :: int where
  "kMemoizerChunkSize = 100"

definition maxInt :: int where
  "maxInt = 2 ^ 63 - 1"

definition kMaxChunks :: int where
  "kMaxChunks = maxInt div kMemoizerChunkSize"

text \<open>Go's integer division truncates toward zero.\<close>

definition go_quo :: "int \<Rightarrow> int \<Rightarrow> int" where
  "go_quo a b = sgn a * sgn b * (\<bar>a\<bar> div \<bar>b\<bar>)"

text \<open>
  The inner loop of \<open>run\<close>: up to \<open>j\<close> calls of \<open>iter\<close>, stopping at the first result
  out of range. The flag says whether it stopped there.
\<close>

fun produce :: "nat \<Rightarrow> digitsFn \<Rightarrow> int list \<Rightarrow> panic + (digitsFn \<times> int list \<times> bool)" where
  "produce 0 iter data = Inr (iter, data, False)"
| "produce (Suc j) iter data =
     (case digits_call iter of
        Inl e \<Rightarrow> Inl e
      | Inr (x, iter') \<Rightarrow>
          if digitOutOfRange x then Inr (iter', data, True)
          else produce j iter' (data @ [x]))"

text \<open>
  \<open>setData(data, true)\<close> followed by the return of \<open>run\<close>, whose deferred call is
  \<open>ctxt.End()\<close>.
\<close>

definition run_return :: "world \<Rightarrow> nat \<Rightarrow> memoizer \<Rightarrow> digitsFn \<Rightarrow> int list \<Rightarrow> panic + world" where
  "run_return w a m iter data =
     (case deref (w_contexts w) (m_ctxt m) of
        Inl e \<Rightarrow> Inl e
      | Inr c \<Rightarrow>
          Inr (w\<lparr>w_memoizers := (w_memoizers w)
                   [a := m\<lparr>m_iter := iter, m_data := data, m_done := True,
                           m_run_returned := True\<rparr>],
                 w_contexts := (w_contexts w)
                   [m_ctxt m := c\<lparr>ctx_active := ctx_active c - 1\<rparr>]\<rparr>))"

text \<open>
  The goroutine \<open>run\<close>, advanced as far as it can go: it returns when the loop
  counter reaches \<open>kMaxChunks\<close>, when \<open>iter\<close> yields a value out of range or when its
  context is closed, and it blocks in \<open>waitToGrow\<close> (the third test) while
  \<open>len(m.data) >= m.maxLength\<close>. A reader that has raised \<open>maxLength\<close> may see the data
  before the goroutine reaches that point; what it reads at its index is the same.
\<close>

function run :: "world \<Rightarrow> nat \<Rightarrow> panic + world" where
  "run w a =
     (case deref (w_memoizers w) a of
        Inl e \<Rightarrow> Inl e
      | Inr m \<Rightarrow>
          if m_run_returned m then Inr w
          else if \<not> m_run_i m < kMaxChunks then run_return w a m (m_iter m) (m_data m)
          else if m_maxLength m \<le> int (length (m_data m)) then Inr w
          else (case produce 100 (m_iter m) (m_data m) of
                  Inl e \<Rightarrow> Inl e
                | Inr (iter, data, stop) \<Rightarrow>
                    if stop then run_return w a m iter data
                    else (case deref (w_contexts w) (m_ctxt m) of
                            Inl e \<Rightarrow> Inl e
                          | Inr c \<Rightarrow>
                              if ctx_closed c then run_return w a m iter data
                              else run (w\<lparr>w_memoizers := (w_memoizers w)
                                          [a := m\<lparr>m_iter := iter, m_data := data,
                                                  m_done := False,
                                                  m_run_i := m_run_i m + 1\<rparr>]\<rparr>) a)))"
  by pat_completeness auto
termination
proof -
  have len: "length data' = length data + j"
    if "produce j iter data = Inr (iter', data', False)" for j iter data iter' data'
    using that
    by (induction j arbitrary: iter data) (auto split: sum.splits prod.splits if_splits)
  show ?thesis
    apply (relation "measure (\<lambda>(w, a).
        nat (m_maxLength (w_memoizers w ! a) - int (length (m_data (w_memoizers w ! a)))))")
     apply simp
    apply (auto simp: deref_def split: if_splits dest!: len)
    done
qed

text \<open>
  \<open>newMemoizeSpec\<close> of numberspec.go: the new memoizer, \<open>ctxt.Start()\<close> and
  \<open>go result.run()\<close>.
\<close>

datatype numberSpec = NilSpec | MemoizerSpec nat | LimitSpec nat numberSpec int

definition newMemoizeSpec :: "digitsFn \<Rightarrow> nat \<Rightarrow> world \<Rightarrow> panic + (numberSpec \<times> world)" where
  "newMemoizeSpec iter ctxt w =
     (case deref (w_contexts w) ctxt of
        Inl e \<Rightarrow> Inl e
      | Inr c \<Rightarrow>
          (let a = length (w_memoizers w);
               result = \<lparr>m_iter = iter, m_ctxt = ctxt, m_data = [], m_maxLength = 0,
                         m_done = False, m_run_i = 0, m_run_returned = False\<rparr>;
               w = w\<lparr>w_memoizers := w_memoizers w @ [result],
                     w_contexts := (w_contexts w)[ctxt := c\<lparr>ctx_active := ctx_active c + 1\<rparr>]\<rparr>
           in (case run w a of
                 Inl e \<Rightarrow> Inl e
               | Inr w \<Rightarrow> Inr (MemoizerSpec a, w))))"

text \<open>
  \<open>wait\<close>: the reader raises \<open>maxLength\<close> and signals, the goroutine runs, and the
  reader returns once \<open>done\<close> holds or \<open>len(m.data) > index\<close>. \<open>None\<close>: the reader
  waits on \<open>updateAvailable\<close> for ever.
\<close>

definition wait :: "world \<Rightarrow> nat \<Rightarrow> int \<Rightarrow> (panic + ((int list \<times> bool) \<times> world)) option" where
  "wait w a index =
     (case deref (w_memoizers w) a of
        Inl e \<Rightarrow> Some (Inl e)
      | Inr m \<Rightarrow>
          (let m = (if \<not> m_done m \<and> m_maxLength m \<le> index
                    then (let chunkCount = go_quo index kMemoizerChunkSize + 1;
                              chunkCount = (if chunkCount > kMaxChunks then kMaxChunks
                                            else chunkCount)
                          in m\<lparr>m_maxLength := kMemoizerChunkSize * chunkCount\<rparr>)
                    else m);
               w = w\<lparr>w_memoizers := (w_memoizers w)[a := m]\<rparr>
           in (case run w a of
                 Inl e \<Rightarrow> Some (Inl e)
               | Inr w \<Rightarrow>
                   (case deref (w_memoizers w) a of
                      Inl e \<Rightarrow> Some (Inl e)
                    | Inr m \<Rightarrow>
                        if \<not> m_done m \<and> int (length (m_data m)) \<le> index then None
                        else Some (Inr ((m_data m, int (length (m_data m)) > index), w))))))"

definition memoizer_At :: "world \<Rightarrow> nat \<Rightarrow> int \<Rightarrow> (panic + (int \<times> world)) option" where
  "memoizer_At w a index =
     (if index < 0 then Some (Inr (- 1, w))
      else (case wait w a index of
              None \<Rightarrow> None
            | Some (Inl e) \<Rightarrow> Some (Inl e)
            | Some (Inr ((data, ok), w)) \<Rightarrow>
                if \<not> ok then Some (Inr (- 1, w))
                else Some (Inr (data ! nat index, w))))"

definition memoizer_FirstN :: "world \<Rightarrow> nat \<Rightarrow> int \<Rightarrow> (panic + (int list \<times> world)) option" where
  "memoizer_FirstN w a n =
     (if n \<le> 0 then Some (Inr ([], w))
      else (case wait w a (n - 1) of
              None \<Rightarrow> None
            | Some (Inl e) \<Rightarrow> Some (Inl e)
            | Some (Inr ((data, ok), w)) \<Rightarrow>
                if int (length data) > n then Some (Inr (take (nat n) data, w))
                else Some (Inr (data, w))))"

text \<open>
  The loop of \<open>Scan\<close> and of \<open>ScanValues\<close>. \<open>yield\<close> is any function of the caller: it
  gets the caller's state, the index and the digit, and returns whether to go on.
\<close>

function scan_loop ::
    "world \<Rightarrow> nat \<Rightarrow> int list \<Rightarrow> bool \<Rightarrow> int \<Rightarrow> int \<Rightarrow> ('s \<Rightarrow> int \<Rightarrow> int \<Rightarrow> bool \<times> 's) \<Rightarrow> 's \<Rightarrow>
     (panic + ('s \<times> world)) option" where
  "scan_loop w a data ok index limit yield s =
     (if ok \<and> index < limit then
        (if index < 0 \<or> int (length data) \<le> index then Some (Inl IndexOutOfRange)
         else (case yield s index (data ! nat index) of
                 (cont, s) \<Rightarrow>
                   if \<not> cont then Some (Inr (s, w))
                   else if index + 1 = int (length data) then
                     (case wait w a (index + 1) of
                        None \<Rightarrow> None
                      | Some (Inl e) \<Rightarrow> Some (Inl e)
                      | Some (Inr ((data, ok), w)) \<Rightarrow>
                          scan_loop w a data ok (index + 1) limit yield s)
                   else scan_loop w a data ok (index + 1) limit yield s))
      else Some (Inr (s, w)))"
  by pat_completeness auto
termination
  by (relation "measure (\<lambda>(w, a, data, ok, index, limit, yield, s). nat (limit - index))") auto

definition memoizer_Scan ::
    "world \<Rightarrow> nat \<Rightarrow> int \<Rightarrow> int \<Rightarrow> ('s \<Rightarrow> int \<Rightarrow> int \<Rightarrow> bool \<times> 's) \<Rightarrow> 's \<Rightarrow>
     (panic + ('s \<times> world)) option" where
  "memoizer_Scan w a index limit yield s =
     (if index < 0 then Some (Inl IndexMustBeNonNegative)
      else (case wait w a index of
              None \<Rightarrow> None
            | Some (Inl e) \<Rightarrow> Some (Inl e)
            | Some (Inr ((data, ok), w)) \<Rightarrow> scan_loop w a data ok index limit yield s))"

definition memoizer_ScanValues ::
    "world \<Rightarrow> nat \<Rightarrow> int \<Rightarrow> int \<Rightarrow> ('s \<Rightarrow> int \<Rightarrow> bool \<times> 's) \<Rightarrow> 's \<Rightarrow>
     (panic + ('s \<times> world)) option" where
  "memoizer_ScanValues w a index limit yield s =
     (if index < 0 then Some (Inl IndexMustBeNonNegative)
      else (case wait w a index of
              None \<Rightarrow> None
            | Some (Inl e) \<Rightarrow> Some (Inl e)
            | Some (Inr ((data, ok), w)) \<Rightarrow>
                scan_loop w a data ok index limit (\<lambda>s index value. yield s value) s))"

section \<open>numberSpec: memoizer and limitSpec\<close>

text \<open>
  The interface value \<open>numberSpec\<close> is nil, a \<open>*memoizer\<close> or a \<open>*limitSpec\<close> (address,
  \<open>delegate\<close>, \<open>limit\<close>). Calling a method of a nil interface panics.
\<close>

fun numberSpec_At :: "world \<Rightarrow> numberSpec \<Rightarrow> int \<Rightarrow> (panic + (int \<times> world)) option" where
  "numberSpec_At w NilSpec index = Some (Inl InvalidMemoryAddress)"
| "numberSpec_At w (MemoizerSpec a) index = memoizer_At w a index"
| "numberSpec_At w (LimitSpec l delegate limit) index =
     (if index \<ge> limit then
        (case numberSpec_At w delegate limit of
           None \<Rightarrow> None
         | Some (Inl e) \<Rightarrow> Some (Inl e)
         | Some (Inr (d, w)) \<Rightarrow> Some (Inr (- 1, w)))
      else numberSpec_At w delegate index)"

fun numberSpec_FirstN :: "world \<Rightarrow> numberSpec \<Rightarrow> int \<Rightarrow> (panic + (int list \<times> world)) option" where
  "numberSpec_FirstN w NilSpec n = Some (Inl InvalidMemoryAddress)"
| "numberSpec_FirstN w (MemoizerSpec a) n = memoizer_FirstN w a n"
| "numberSpec_FirstN w (LimitSpec l delegate limit) n =
     (let n = (if n > limit then limit else n) in numberSpec_FirstN w delegate n)"

fun numberSpec_Scan ::
    "world \<Rightarrow> numberSpec \<Rightarrow> int \<Rightarrow> int \<Rightarrow> ('s \<Rightarrow> int \<Rightarrow> int \<Rightarrow> bool \<times> 's) \<Rightarrow> 's \<Rightarrow>
     (panic + ('s \<times> world)) option" where
  "numberSpec_Scan w NilSpec index limit yield s = Some (Inl InvalidMemoryAddress)"
| "numberSpec_Scan w (MemoizerSpec a) index limit yield s = memoizer_Scan w a index limit yield s"
| "numberSpec_Scan w (LimitSpec l delegate llimit) index limit yield s =
     (let index = min index llimit;
          limit = min limit llimit
      in numberSpec_Scan w delegate index limit yield s)"

fun numberSpec_ScanValues ::
    "world \<Rightarrow> numberSpec \<Rightarrow> int \<Rightarrow> int \<Rightarrow> ('s \<Rightarrow> int \<Rightarrow> bool \<times> 's) \<Rightarrow> 's \<Rightarrow>
     (panic + ('s \<times> world)) option" where
  "numberSpec_ScanValues w NilSpec index limit yield s = Some (Inl InvalidMemoryAddress)"
| "numberSpec_ScanValues w (MemoizerSpec a) index limit yield s =
     memoizer_ScanValues w a index limit yield s"
| "numberSpec_ScanValues w (LimitSpec l delegate llimit) index limit yield s =
     (let index = min index llimit;
          limit = min limit llimit
      in numberSpec_ScanValues w delegate index limit yield s)"

text \<open>
  \<open>withLimit\<close>. The comparison of two interface values is the comparison of their
  dynamic types and pointers.
\<close>

fun sameSpec :: "numberSpec \<Rightarrow> numberSpec \<Rightarrow> bool" where
  "sameSpec NilSpec NilSpec = True"
| "sameSpec (MemoizerSpec a) (MemoizerSpec b) = (a = b)"
| "sameSpec (LimitSpec a d l) (LimitSpec b d' l') = (a = b)"
| "sameSpec x y = False"

definition new_limitSpec :: "numberSpec \<Rightarrow> int \<Rightarrow> world \<Rightarrow> numberSpec \<times> world" where
  "new_limitSpec delegate limit w =
     (LimitSpec (w_nextLimitSpec w) delegate limit,
      w\<lparr>w_nextLimitSpec := w_nextLimitSpec w + 1\<rparr>)"

definition withLimit :: "numberSpec \<Rightarrow> int \<Rightarrow> world \<Rightarrow> numberSpec \<times> world" where
  "withLimit spec limit w =
     (if limit \<le> 0 \<or> spec = NilSpec then (NilSpec, w)
      else (case spec of
              LimitSpec a delegate llimit \<Rightarrow>
                if limit \<ge> llimit then (spec, w)
                else new_limitSpec delegate limit w
            | _ \<Rightarrow> new_limitSpec spec limit w))"

section \<open>mantissa, FiniteNumber and Number\<close>

text \<open>The struct \<open>mantissa\<close> has the one field \<open>spec\<close>; it is modelled by that field.\<close>

definition mantissa_At :: "world \<Rightarrow> numberSpec \<Rightarrow> int \<Rightarrow> (panic + (int \<times> world)) option" where
  "mantissa_At w spec posit =
     (if spec = NilSpec then Some (Inr (- 1, w)) else numberSpec_At w spec posit)"

definition mantissa_IsZero :: "numberSpec \<Rightarrow> bool" where
  "mantissa_IsZero spec \<longleftrightarrow> spec = NilSpec"

definition mantissa_Scan ::
    "world \<Rightarrow> numberSpec \<Rightarrow> int \<Rightarrow> ('s \<Rightarrow> int \<Rightarrow> int \<Rightarrow> bool \<times> 's) \<Rightarrow> 's \<Rightarrow>
     (panic + ('s \<times> world)) option" where
  "mantissa_Scan w spec index yield s =
     (if spec = NilSpec then Some (Inr (s, w))
      else numberSpec_Scan w spec index maxInt yield s)"

definition mantissa_ScanValues ::
    "world \<Rightarrow> numberSpec \<Rightarrow> int \<Rightarrow> ('s \<Rightarrow> int \<Rightarrow> bool \<times> 's) \<Rightarrow> 's \<Rightarrow>
     (panic + ('s \<times> world)) option" where
  "mantissa_ScanValues w spec index yield s =
     (if spec = NilSpec then Some (Inr (s, w))
      else numberSpec_ScanValues w spec index maxInt yield s)"

definition mantissa_Values ::
    "world \<Rightarrow> numberSpec \<Rightarrow> ('s \<Rightarrow> int \<Rightarrow> bool \<times> 's) \<Rightarrow> 's \<Rightarrow> (panic + ('s \<times> world)) option" where
  "mantissa_Values w spec yield s = mantissa_ScanValues w spec 0 yield s"

definition mantissa_WithLimit :: "numberSpec \<Rightarrow> int \<Rightarrow> world \<Rightarrow> numberSpec \<times> world" where
  "mantissa_WithLimit spec limit w = withLimit spec limit w"

text \<open>
  A \<open>*FiniteNumber\<close> is its address and its two fields; \<open>zeroNumber\<close> has address 0.
  A \<open>Number\<close> is a \<open>*FiniteNumber\<close> or an \<open>*opqNumber\<close> (address and embedded \<open>Number\<close>).
\<close>

record FiniteNumber =
  fn_addr :: nat
  fn_mantissa :: numberSpec
  fn_exponent :: int

datatype Number = FiniteNum FiniteNumber | OpqNum nat Number

definition zeroNumber :: FiniteNumber where
  "zeroNumber = \<lparr>fn_addr = 0, fn_mantissa = NilSpec, fn_exponent = 0\<rparr>"

definition new_FiniteNumber :: "numberSpec \<Rightarrow> int \<Rightarrow> world \<Rightarrow> FiniteNumber \<times> world" where
  "new_FiniteNumber m e w =
     (\<lparr>fn_addr = w_nextFiniteNumber w, fn_mantissa = m, fn_exponent = e\<rparr>,
      w\<lparr>w_nextFiniteNumber := w_nextFiniteNumber w + 1\<rparr>)"

definition FiniteNumber_At :: "world \<Rightarrow> FiniteNumber \<Rightarrow> int \<Rightarrow> (panic + (int \<times> world)) option" where
  "FiniteNumber_At w n posit = mantissa_At w (fn_mantissa n) posit"

definition FiniteNumber_Exponent :: "FiniteNumber \<Rightarrow> int" where
  "FiniteNumber_Exponent n = fn_exponent n"

definition FiniteNumber_IsZero :: "FiniteNumber \<Rightarrow> bool" where
  "FiniteNumber_IsZero n = mantissa_IsZero (fn_mantissa n)"

definition FiniteNumber_withMantissa ::
    "FiniteNumber \<Rightarrow> numberSpec \<Rightarrow> world \<Rightarrow> FiniteNumber \<times> world" where
  "FiniteNumber_withMantissa n newMantissa w =
     (if sameSpec newMantissa (fn_mantissa n) then (n, w)
      else if mantissa_IsZero newMantissa then (zeroNumber, w)
      else new_FiniteNumber newMantissa (fn_exponent n) w)"

definition FiniteNumber_WithSignificant ::
    "FiniteNumber \<Rightarrow> int \<Rightarrow> world \<Rightarrow> panic + (FiniteNumber \<times> world)" where
  "FiniteNumber_WithSignificant n limit w =
     (if limit < 0 then Inl LimitMustBeNonNegative
      else (case mantissa_WithLimit (fn_mantissa n) limit w of
              (newMantissa, w) \<Rightarrow> Inr (FiniteNumber_withMantissa n newMantissa w)))"

text \<open>The methods an \<open>*opqNumber\<close> has from the \<open>Number\<close> it embeds.\<close>

fun Number_At :: "world \<Rightarrow> Number \<Rightarrow> int \<Rightarrow> (panic + (int \<times> world)) option" where
  "Number_At w (FiniteNum n) posit = FiniteNumber_At w n posit"
| "Number_At w (OpqNum a n) posit = Number_At w n posit"

fun Number_Exponent :: "Number \<Rightarrow> int" where
  "Number_Exponent (FiniteNum n) = FiniteNumber_Exponent n"
| "Number_Exponent (OpqNum a n) = Number_Exponent n"

fun Number_IsZero :: "Number \<Rightarrow> bool" where
  "Number_IsZero (FiniteNum n) = FiniteNumber_IsZero n"
| "Number_IsZero (OpqNum a n) = Number_IsZero n"

fun Number_WithSignificant :: "Number \<Rightarrow> int \<Rightarrow> world \<Rightarrow> panic + (FiniteNumber \<times> world)" where
  "Number_WithSignificant (FiniteNum n) limit w = FiniteNumber_WithSignificant n limit w"
| "Number_WithSignificant (OpqNum a n) limit w = Number_WithSignificant n limit w"

definition opaqueNumber :: "Number \<Rightarrow> world \<Rightarrow> Number \<times> world" where
  "opaqueNumber n w =
     (case n of
        OpqNum a n' \<Rightarrow> (n, w)
      | FiniteNum n' \<Rightarrow> (OpqNum (w_nextOpqNumber w) n, w\<lparr>w_nextOpqNumber := w_nextOpqNumber w + 1\<rparr>))"

section \<open>Context and the factories\<close>

text \<open>
  A \<open>Context\<close> holds its \<open>context\<close> (by address) and the list \<open>specs\<close>; the mutex has no
  effect on a sequential run. A receiver \<open>c *Context\<close> may be nil (\<open>nilContext\<close>), so it
  is a \<open>Context option\<close>, and every method returns the receiver after the call.
\<close>

record Context =
  c_ctxt :: nat
  c_specs :: "numberSpec list"

text \<open>A caller's \<open>var ctxt Context\<close>: the zero value, at a new address.\<close>

definition new_Context :: "world \<Rightarrow> Context \<times> world" where
  "new_Context w =
     (\<lparr>c_ctxt = length (w_contexts w), c_specs = []\<rparr>,
      w\<lparr>w_contexts := w_contexts w @ [\<lparr>ctx_active = 0, ctx_closed = False\<rparr>]\<rparr>)"

definition Context_newMemoizeSpec ::
    "Context option \<Rightarrow> digitsFn \<Rightarrow> world \<Rightarrow> panic + (numberSpec \<times> Context option \<times> world)" where
  "Context_newMemoizeSpec c digits w =
     (case c of
        None \<Rightarrow>
          (case newMemoizeSpec digits 0 w of
             Inl e \<Rightarrow> Inl e
           | Inr (result, w) \<Rightarrow> Inr (result, None, w))
      | Some ctx \<Rightarrow>
          (case deref (w_contexts w) (c_ctxt ctx) of
             Inl e \<Rightarrow> Inl e
           | Inr ctxt \<Rightarrow>
               if ctx_closed ctxt then Inl ContextClosed
               else (case newMemoizeSpec digits (c_ctxt ctx) w of
                       Inl e \<Rightarrow> Inl e
                     | Inr (result, w) \<Rightarrow>
                         Inr (result, Some (ctx\<lparr>c_specs := c_specs ctx @ [result]\<rparr>), w))))"

definition Context_newFiniteNumber ::
    "Context option \<Rightarrow> digitsFn \<Rightarrow> int \<Rightarrow> world \<Rightarrow> panic + (FiniteNumber \<times> Context option \<times> world)" where
  "Context_newFiniteNumber c digits expo w =
     (case Context_newMemoizeSpec c digits w of
        Inl e \<Rightarrow> Inl e
      | Inr (spec, c, w) \<Rightarrow>
          (case new_FiniteNumber spec expo w of (n, w) \<Rightarrow> Inr (n, c, w)))"

definition Context_newNumber ::
    "Context option \<Rightarrow> digitsFn \<Rightarrow> int \<Rightarrow> world \<Rightarrow> panic + (Number \<times> Context option \<times> world)" where
  "Context_newNumber c digits expo w =
     (case Context_newFiniteNumber c digits expo w of
        Inl e \<Rightarrow> Inl e
      | Inr (n, c, w) \<Rightarrow>
          (case opaqueNumber (FiniteNum n) w of (n, w) \<Rightarrow> Inr (n, c, w)))"

definition checkNumDenom :: "int \<Rightarrow> int \<Rightarrow> panic + unit" where
  "checkNumDenom num denom =
     (if denom \<le> 0 then Inl DenominatorMustBePositive
      else if num < 0 then Inl NumeratorMustBeNonNegative
      else Inr ())"

definition Context_nRootFrac ::
    "Context option \<Rightarrow> int \<Rightarrow> int \<Rightarrow> rootManager \<Rightarrow> world \<Rightarrow>
     (panic + (Number \<times> Context option \<times> world)) option" where
  "Context_nRootFrac c num denom newManager w =
     (case checkNumDenom num denom of
        Inl e \<Rightarrow> Some (Inl e)
      | Inr u \<Rightarrow>
          if num = 0 then Some (Inr (FiniteNum zeroNumber, c, w))
          else (case Generate (newNRootGenerator num denom newManager) of
                  None \<Rightarrow> None
                | Some (Inl e) \<Rightarrow> Some (Inl e)
                | Some (Inr (digits, expo)) \<Rightarrow> Some (Context_newNumber c digits expo w)))"

definition Context_Sqrt ::
    "Context option \<Rightarrow> int \<Rightarrow> world \<Rightarrow> (panic + (Number \<times> Context option \<times> world)) option" where
  "Context_Sqrt c radican w = Context_nRootFrac c radican 1 newSqrtManager w"

definition Context_SqrtRat ::
    "Context option \<Rightarrow> int \<Rightarrow> int \<Rightarrow> world \<Rightarrow>
     (panic + (Number \<times> Context option \<times> world)) option" where
  "Context_SqrtRat c num denom w = Context_nRootFrac c num denom newSqrtManager w"

definition Context_SqrtBigInt ::
    "Context option \<Rightarrow> int \<Rightarrow> world \<Rightarrow> (panic + (Number \<times> Context option \<times> world)) option" where
  "Context_SqrtBigInt c radican w = Context_nRootFrac c radican 1 newSqrtManager w"

text \<open>A \<open>big.Rat\<close> is in lowest terms with a positive denominator.\<close>

definition Context_SqrtBigRat ::
    "Context option \<Rightarrow> rat \<Rightarrow> world \<Rightarrow> (panic + (Number \<times> Context option \<times> world)) option" where
  "Context_SqrtBigRat c radican w =
     Context_nRootFrac c (fst (quotient_of radican)) (snd (quotient_of radican)) newSqrtManager w"

definition Context_CubeRoot ::
    "Context option \<Rightarrow> int \<Rightarrow> world \<Rightarrow> (panic + (Number \<times> Context option \<times> world)) option" where
  "Context_CubeRoot c radican w = Context_nRootFrac c radican 1 newCubeRootManager w"

definition Context_CubeRootRat ::
    "Context option \<Rightarrow> int \<Rightarrow> int \<Rightarrow> world \<Rightarrow>
     (panic + (Number \<times> Context option \<times> world)) option" where
  "Context_CubeRootRat c num denom w = Context_nRootFrac c num denom newCubeRootManager w"

definition Context_CubeRootBigInt ::
    "Context option \<Rightarrow> int \<Rightarrow> world \<Rightarrow> (panic + (Number \<times> Context option \<times> world)) option" where
  "Context_CubeRootBigInt c radican w = Context_nRootFrac c radican 1 newCubeRootManager w"

definition Context_CubeRootBigRat ::
    "Context option \<Rightarrow> rat \<Rightarrow> world \<Rightarrow> (panic + (Number \<times> Context option \<times> world)) option" where
  "Context_CubeRootBigRat c radican w =
     Context_nRootFrac c (fst (quotient_of radican)) (snd (quotient_of radican))
       newCubeRootManager w"

text \<open>
  \<open>NewNumberForTesting\<close> and \<open>NewFiniteNumber\<close> return a value and an \<open>error\<close>; the
  result is the error or the value.
\<close>

datatype error = DigitsMustBeBetween0And9 | LeadingZerosNotAllowed

definition Context_NewNumberForTesting ::
    "Context option \<Rightarrow> int list \<Rightarrow> int list \<Rightarrow> int \<Rightarrow> world \<Rightarrow>
     (panic + ((error + Number) \<times> Context option \<times> world)) option" where
  "Context_NewNumberForTesting c fixed repeating expo w =
     (if length fixed = 0 \<and> length repeating = 0 then Some (Inr (Inr (FiniteNum zeroNumber), c, w))
      else if \<not> validDigits fixed \<or> \<not> validDigits repeating
      then Some (Inr (Inl DigitsMustBeBetween0And9, c, w))
      else
        (let gen = newRepeatingGenerator fixed repeating expo
         in (case Generate gen of
               None \<Rightarrow> None
             | Some (Inl e) \<Rightarrow> Some (Inl e)
             | Some (Inr (digits, u)) \<Rightarrow>
                 (case digits_call digits of
                    Inl e \<Rightarrow> Some (Inl e)
                  | Inr (d, digits) \<Rightarrow>
                      if d = 0 then Some (Inr (Inl LeadingZerosNotAllowed, c, w))
                      else (case Generate gen of
                              None \<Rightarrow> None
                            | Some (Inl e) \<Rightarrow> Some (Inl e)
                            | Some (Inr (digits, expo)) \<Rightarrow>
                                if length repeating = 0 then
                                  (case Context_newFiniteNumber c digits expo w of
                                     Inl e \<Rightarrow> Some (Inl e)
                                   | Inr (n, c, w) \<Rightarrow> Some (Inr (Inr (FiniteNum n), c, w)))
                                else
                                  (case Context_newNumber c digits expo w of
                                     Inl e \<Rightarrow> Some (Inl e)
                                   | Inr (n, c, w) \<Rightarrow> Some (Inr (Inr n, c, w))))))))"

definition Context_NewNumber ::
    "Context option \<Rightarrow> Generator \<Rightarrow> world \<Rightarrow>
     (panic + (Number \<times> Context option \<times> world)) option" where
  "Context_NewNumber c g w =
     (case Generate g of
        None \<Rightarrow> None
      | Some (Inl e) \<Rightarrow> Some (Inl e)
      | Some (Inr (digits, expo)) \<Rightarrow>
          (case digits_call digits of
             Inl e \<Rightarrow> Some (Inl e)
           | Inr (first, digits) \<Rightarrow>
               if first = 0 \<or> digitOutOfRange first then Some (Inr (FiniteNum zeroNumber, c, w))
               else Some (Context_newNumber c (firstAndThen first digits) expo w)))"

definition Context_NewFiniteNumber ::
    "Context option \<Rightarrow> int list \<Rightarrow> int \<Rightarrow> world \<Rightarrow>
     (panic + ((error + FiniteNumber) \<times> Context option \<times> world)) option" where
  "Context_NewFiniteNumber c fixed exponent w =
     (case Context_NewNumberForTesting c fixed [] exponent w of
        None \<Rightarrow> None
      | Some (Inl e) \<Rightarrow> Some (Inl e)
      | Some (Inr (Inl err, c, w)) \<Rightarrow> Some (Inr (Inl err, c, w))
      | Some (Inr (Inr result, c, w)) \<Rightarrow>
          (case result of
             FiniteNum n \<Rightarrow> Some (Inr (Inr n, c, w))
           | OpqNum a n \<Rightarrow> Some (Inl InterfaceConversion)))"

text \<open>\<open>Close\<close>: the flag, then \<open>FirstN(math.MaxInt)\<close> on every spec, then \<open>c.specs = nil\<close>.\<close>

fun drain :: "numberSpec list \<Rightarrow> world \<Rightarrow> (panic + world) option" where
  "drain [] w = Some (Inr w)"
| "drain (spec # specs) w =
     (case numberSpec_FirstN w spec maxInt of
        None \<Rightarrow> None
      | Some (Inl e) \<Rightarrow> Some (Inl e)
      | Some (Inr (data, w)) \<Rightarrow> drain specs w)"

definition Context_Close ::
    "Context option \<Rightarrow> world \<Rightarrow> (panic + (Context option \<times> world)) option" where
  "Context_Close c w =
     (case c of
        None \<Rightarrow> Some (Inr (None, w))
      | Some ctx \<Rightarrow>
          (case deref (w_contexts w) (c_ctxt ctx) of
             Inl e \<Rightarrow> Some (Inl e)
           | Inr ctxt \<Rightarrow>
               (let w = w\<lparr>w_contexts := (w_contexts w)[c_ctxt ctx := ctxt\<lparr>ctx_closed := True\<rparr>]\<rparr>
                in (case drain (c_specs ctx) w of
                      None \<Rightarrow> None
                    | Some (Inl e) \<Rightarrow> Some (Inl e)
                    | Some (Inr w) \<Rightarrow> Some (Inr (Some (ctx\<lparr>c_specs := []\<rparr>), w))))))"

definition Context_NumGoroutines :: "Context option \<Rightarrow> world \<Rightarrow> panic + int" where
  "Context_NumGoroutines c w =
     (case deref (w_contexts w) (case c of None \<Rightarrow> 0 | Some ctx \<Rightarrow> c_ctxt ctx) of
        Inl e \<Rightarrow> Inl e
      | Inr ctxt \<Rightarrow> Inr (ctx_active ctxt))"

text \<open>The free-standing factories call the methods on \<open>nilContext\<close>.\<close>

definition Sqrt :: "int \<Rightarrow> world \<Rightarrow> (panic + (Number \<times> Context option \<times> world)) option" where
  "Sqrt radican w = Context_Sqrt None radican w"

definition CubeRoot :: "int \<Rightarrow> world \<Rightarrow> (panic + (Number \<times> Context option \<times> world)) option" where
  "CubeRoot radican w = Context_CubeRoot None radican w"

text \<open>Whether an explicit \<open>Context\<close> has been closed.\<close>

definition Context_closed :: "Context \<Rightarrow> world \<Rightarrow> bool" where
  "Context_closed ctx w \<longleftrightarrow>
     c_ctxt ctx < length (w_contexts w) \<and> ctx_closed (w_contexts w ! c_ctxt ctx)"

text \<open>
  What the package builds: a \<open>limitSpec\<close> never has a nil delegate, and its address
  was handed out by the store.
\<close>

fun validSpec :: "numberSpec \<Rightarrow> bool" where
  "validSpec NilSpec = True"
| "validSpec (MemoizerSpec a) = True"
| "validSpec (LimitSpec l delegate limit) = (delegate \<noteq> NilSpec \<and> validSpec delegate)"

fun Number_mantissa :: "Number \<Rightarrow> numberSpec" where
  "Number_mantissa (FiniteNum n) = fn_mantissa n"
| "Number_mantissa (OpqNum a n) = Number_mantissa n"

fun allocatedSpec :: "world \<Rightarrow> numberSpec \<Rightarrow> bool" where
  "allocatedSpec w (LimitSpec l delegate limit) = (l < w_nextLimitSpec w)"
| "allocatedSpec w spec = True"

text \<open>A Context that a caller declared and closed, and the store after that.\<close>

definition closedContext :: Context where
  "closedContext = \<lparr>c_ctxt = 1, c_specs = []\<rparr>"

definition worldWithContext :: world where
  "worldWithContext = snd (new_Context initialWorld)"

definition worldAfterClose :: world where
  "worldAfterClose =
     \<lparr>w_contexts = [\<lparr>ctx_active = 0, ctx_closed = False\<rparr>, \<lparr>ctx_active = 0, ctx_closed = True\<rparr>],
      w_memoizers = [], w_nextLimitSpec = 0, w_nextFiniteNumber = 1, w_nextOpqNumber = 0\<rparr>"

section \<open>Format specifications\<close>

text \<open>
  Go's \<open>int\<close> has 64 bits. It is modelled by \<open>int\<close>; where the source adds or
  subtracts two values that are not bounded by a loop guard, the result is wrapped
  into the 64-bit range.
\<close>

definition wrap64 :: "int \<Rightarrow> int" where
  "wrap64 x = (x + 2 ^ 63) mod 2 ^ 64 - 2 ^ 63"

definition fPrecision :: int where
  "fPrecision = 6"

definition gPrecision :: int where
  "gPrecision = 16"

text \<open>
  What the package reads from a \<open>fmt.State\<close>: \<open>Width()\<close> and \<open>Precision()\<close>, each a
  value with its ok flag, and \<open>Flag('-')\<close>.
\<close>

record fmtState =
  st_Width :: "int \<times> bool"
  st_Precision :: "int \<times> bool"
  st_FlagMinus :: bool

record formatSpec =
  fs_sigDigits :: int
  fs_exactDigitCount :: bool
  fs_sci :: bool
  fs_capital :: bool

definition bigExponent :: "int \<Rightarrow> bool" where
  "bigExponent exponent \<longleftrightarrow> exponent < - 3 \<or> exponent > 6"

definition formatSpecForF :: "int \<Rightarrow> int \<Rightarrow> formatSpec" where
  "formatSpecForF precision exponent =
     (let sigDigits = wrap64 (precision + exponent)
      in \<lparr>fs_sigDigits = sigDigits, fs_exactDigitCount = True, fs_sci = False,
          fs_capital = False\<rparr>)"

definition formatSpecForG :: "int \<Rightarrow> int \<Rightarrow> bool \<Rightarrow> formatSpec" where
  "formatSpecForG precision exponent capital =
     (let sigDigits = precision;
          sigDigits = (if sigDigits = 0 then 1 else sigDigits);
          sci = (sigDigits < exponent \<or> bigExponent exponent)
      in \<lparr>fs_sigDigits = sigDigits, fs_exactDigitCount = False, fs_sci = sci,
          fs_capital = capital\<rparr>)"

definition formatSpecForE :: "int \<Rightarrow> bool \<Rightarrow> formatSpec" where
  "formatSpecForE precision capital =
     \<lparr>fs_sigDigits = precision, fs_exactDigitCount = True, fs_sci = True,
      fs_capital = capital\<rparr>"

definition newFormatSpec :: "fmtState \<Rightarrow> char \<Rightarrow> int \<Rightarrow> formatSpec \<times> bool" where
  "newFormatSpec state verb exponent =
     (case st_Precision state of
        (precision, precisionOk) \<Rightarrow>
          if verb = CHR ''f'' \<or> verb = CHR ''F'' then
            (let precision = (if \<not> precisionOk then fPrecision else precision)
             in (formatSpecForF precision exponent, True))
          else if verb = CHR ''g'' \<or> verb = CHR ''G'' \<or> verb = CHR ''v'' then
            (let precision = (if \<not> precisionOk then gPrecision else precision)
             in (formatSpecForG precision exponent (verb = CHR ''G''), True))
          else if verb = CHR ''e'' \<or> verb = CHR ''E'' then
            (let precision = (if \<not> precisionOk then fPrecision else precision)
             in (formatSpecForE precision (verb = CHR ''E''), True))
          else
            (\<lparr>fs_sigDigits = 0, fs_exactDigitCount = False, fs_sci = False,
              fs_capital = False\<rparr>, False))"

text \<open>The precision the g, G and v verbs work with: 16 when the state gives none.\<close>

definition gPrecisionOf :: "fmtState \<Rightarrow> int" where
  "gPrecisionOf state = (if snd (st_Precision state) then fst (st_Precision state) else 16)"

section \<open>Byte sinks\<close>

text \<open>
  An \<open>io.Writer\<close> is modelled by what it has accepted, the log of the \<open>Write\<close> calls
  made on it (the bytes offered and whether the call failed) and a script for the
  calls to come: \<open>None\<close> lets a call succeed, \<open>Some k\<close> makes it fail after accepting at
  most \<open>k\<close> bytes, and once the script is used up every call succeeds. A
  \<open>strings.Builder\<close> and the \<open>fmt.State\<close> of package fmt never fail: their script is
  empty.
\<close>

record sink =
  sk_accepted :: string
  sk_calls :: "(string \<times> bool) list"
  sk_script :: "nat option list"

definition sink_Write :: "sink \<Rightarrow> string \<Rightarrow> nat \<times> bool \<times> sink" where
  "sink_Write wr p =
     (case sk_script wr of
        [] \<Rightarrow>
          (length p, False,
           wr\<lparr>sk_accepted := sk_accepted wr @ p, sk_calls := sk_calls wr @ [(p, False)]\<rparr>)
      | None # rest \<Rightarrow>
          (length p, False,
           wr\<lparr>sk_accepted := sk_accepted wr @ p, sk_calls := sk_calls wr @ [(p, False)],
              sk_script := rest\<rparr>)
      | Some k # rest \<Rightarrow>
          (min k (length p), True,
           wr\<lparr>sk_accepted := sk_accepted wr @ take (min k (length p)) p,
              sk_calls := sk_calls wr @ [(p, True)], sk_script := rest\<rparr>))"

definition new_Builder :: sink where
  "new_Builder = \<lparr>sk_accepted = [], sk_calls = [], sk_script = []\<rparr>"

definition Builder_String :: "sink \<Rightarrow> string" where
  "Builder_String b = sk_accepted b"

text \<open>
  \<open>bufio.Writer\<close>, from the Go standard library (bufio.go; not part of this
  repository): the buffered bytes \<open>buf[0:n]\<close>, the sticky error \<open>err\<close> and the
  underlying writer \<open>wr\<close>. \<open>NewWriter\<close> gives a buffer of 4096 bytes.
\<close>

record bufioWriter =
  bw_buf :: string
  bw_err :: bool
  bw_wr :: sink

definition defaultBufSize :: nat where
  "defaultBufSize = 4096"

definition bufio_NewWriter :: "sink \<Rightarrow> bufioWriter" where
  "bufio_NewWriter w = \<lparr>bw_buf = [], bw_err = False, bw_wr = w\<rparr>"

definition bufio_Flush :: "bufioWriter \<Rightarrow> bool \<times> bufioWriter" where
  "bufio_Flush b =
     (if bw_err b then (True, b)
      else if length (bw_buf b) = 0 then (False, b)
      else (case sink_Write (bw_wr b) (bw_buf b) of
              (n, err, wr) \<Rightarrow>
                (let err = (if n < length (bw_buf b) \<and> \<not> err then True else err)
                 in if err then (True, b\<lparr>bw_buf := drop n (bw_buf b), bw_err := True, bw_wr := wr\<rparr>)
                    else (False, b\<lparr>bw_buf := [], bw_wr := wr\<rparr>))))"

definition bufio_WriteByte :: "bufioWriter \<Rightarrow> char \<Rightarrow> bool \<times> bufioWriter" where
  "bufio_WriteByte b c =
     (if bw_err b then (True, b)
      else if defaultBufSize \<le> length (bw_buf b) then
        (case bufio_Flush b of
           (err, b) \<Rightarrow> if err then (True, b) else (False, b\<lparr>bw_buf := bw_buf b @ [c]\<rparr>))
      else (False, b\<lparr>bw_buf := bw_buf b @ [c]\<rparr>))"

text \<open>
  \<open>fmt.Fprint(w, s)\<close> for a string \<open>s\<close> is one \<open>Write\<close> of its bytes; the package drops
  what it returns. \<open>"%+03d"\<close> prints the sign and at least two digits.
\<close>

definition Fprint :: "sink \<Rightarrow> string \<Rightarrow> sink" where
  "Fprint w s = snd (snd (sink_Write w s))"

function decimal :: "nat \<Rightarrow> string" where
  "decimal n = (if n < 10 then [char_of (48 + n)] else decimal (n div 10) @ [char_of (48 + n mod 10)])"
  by pat_completeness auto
termination
  by (relation "measure id") auto

definition fmt_plus03d :: "int \<Rightarrow> string" where
  "fmt_plus03d e =
     (let ds = decimal (nat \<bar>e\<bar>)
      in (if e < 0 then CHR ''-'' else CHR ''+'') # replicate (2 - length ds) CHR ''0'' @ ds)"

section \<open>formatter\<close>

text \<open>
  No method of \<open>formatter\<close> has a result: what \<open>WriteByte\<close> and \<open>Flush\<close> return is
  dropped at every call.
\<close>

record formatter =
  f_writer :: bufioWriter
  f_sigDigits :: int
  f_exponent :: int
  f_exactDigitCount :: bool
  f_index :: int

definition newFormatter :: "sink \<Rightarrow> int \<Rightarrow> int \<Rightarrow> bool \<Rightarrow> panic + formatter" where
  "newFormatter w sigDigits exponent exactDigitCount =
     (if sigDigits < exponent then Inl SigDigitsLessThanExponent
      else Inr \<lparr>f_writer = bufio_NewWriter w, f_sigDigits = sigDigits, f_exponent = exponent,
                f_exactDigitCount = exactDigitCount, f_index = 0\<rparr>)"

definition CanConsume :: "formatter \<Rightarrow> bool" where
  "CanConsume f \<longleftrightarrow> f_index f < f_sigDigits f"

definition writeByte :: "formatter \<Rightarrow> char \<Rightarrow> formatter" where
  "writeByte f c = f\<lparr>f_writer := snd (bufio_WriteByte (f_writer f) c)\<rparr>"

primrec writeZeros :: "nat \<Rightarrow> formatter \<Rightarrow> formatter" where
  "writeZeros 0 f = f"
| "writeZeros (Suc i) f = writeZeros i (writeByte f CHR ''0'')"

definition addLeadingZeros :: "formatter \<Rightarrow> int \<Rightarrow> formatter" where
  "addLeadingZeros f count =
     (let f = writeByte f CHR ''0''
      in if count \<le> 0 then f
         else (let f = writeByte f CHR ''.'' in writeZeros (nat count) f))"

definition add :: "formatter \<Rightarrow> int \<Rightarrow> formatter" where
  "add f digit =
     (let f = (if f_index f = 0 \<and> f_exponent f \<le> 0
               then addLeadingZeros f (wrap64 (- f_exponent f)) else f);
          f = (if f_index f = f_exponent f then writeByte f CHR ''.'' else f);
          f = writeByte f (char_of (48 + digit))
      in f\<lparr>f_index := f_index f + 1\<rparr>)"

definition Consume :: "formatter \<Rightarrow> int \<Rightarrow> formatter" where
  "Consume f digit = (if \<not> CanConsume f then f else add f digit)"

function padZeros :: "formatter \<Rightarrow> int \<Rightarrow> formatter" where
  "padZeros f maxDigits = (if f_index f < maxDigits then padZeros (add f 0) maxDigits else f)"
  by pat_completeness auto
termination
proof -
  have wb: "f_index (writeByte f c) = f_index f" for f c
    by (simp add: writeByte_def)
  have wz: "f_index (writeZeros k f) = f_index f" for k f
    by (induction k arbitrary: f) (simp_all add: wb)
  have lz: "f_index (addLeadingZeros f count) = f_index f" for f count
    by (simp add: addLeadingZeros_def Let_def wb wz)
  have "f_index (add f d) = f_index f + 1" for f d
    by (simp add: add_def Let_def wb lz)
  then show ?thesis
    by (relation "measure (\<lambda>(f, maxDigits). nat (maxDigits - f_index f))") auto
qed

definition Finish :: "formatter \<Rightarrow> formatter" where
  "Finish f =
     (let maxDigits = (if \<not> f_exactDigitCount f then f_exponent f else f_sigDigits f);
          f = padZeros f maxDigits;
          f = (if f_index f = 0
               then addLeadingZeros f
                      (if f_exactDigitCount f then wrap64 (f_sigDigits f - f_exponent f)
                       else wrap64 (- f_exponent f))
               else f)
      in f\<lparr>f_writer := snd (bufio_Flush (f_writer f))\<rparr>)"

section \<open>Printing a FiniteNumber\<close>

definition fromMantissa ::
    "world \<Rightarrow> numberSpec \<Rightarrow> formatter \<Rightarrow> (panic + (formatter \<times> world)) option" where
  "fromMantissa w m formatter =
     (if \<not> CanConsume formatter then Some (Inr (formatter, w))
      else mantissa_Values w m
             (\<lambda>formatter digit.
                (let formatter = Consume formatter digit in (CanConsume formatter, formatter)))
             formatter)"

definition printFixed ::
    "formatSpec \<Rightarrow> sink \<Rightarrow> numberSpec \<Rightarrow> int \<Rightarrow> world \<Rightarrow> (panic + (sink \<times> world)) option" where
  "printFixed f w m exponent wd =
     (case newFormatter w (fs_sigDigits f) exponent (fs_exactDigitCount f) of
        Inl e \<Rightarrow> Some (Inl e)
      | Inr formatter \<Rightarrow>
          (case fromMantissa wd m formatter of
             None \<Rightarrow> None
           | Some (Inl e) \<Rightarrow> Some (Inl e)
           | Some (Inr (formatter, wd)) \<Rightarrow>
               Some (Inr (bw_wr (f_writer (Finish formatter)), wd))))"

definition printSci ::
    "formatSpec \<Rightarrow> sink \<Rightarrow> numberSpec \<Rightarrow> int \<Rightarrow> string \<Rightarrow> world \<Rightarrow>
     (panic + (sink \<times> world)) option" where
  "printSci f w m exponent sep wd =
     (case printFixed f w m 0 wd of
        None \<Rightarrow> None
      | Some (Inl e) \<Rightarrow> Some (Inl e)
      | Some (Inr (w, wd)) \<Rightarrow>
          (let w = Fprint w sep;
               w = Fprint w (fmt_plus03d exponent)
           in Some (Inr (w, wd))))"

definition PrintNumber ::
    "formatSpec \<Rightarrow> sink \<Rightarrow> FiniteNumber \<Rightarrow> world \<Rightarrow> (panic + (sink \<times> world)) option" where
  "PrintNumber f w n wd =
     (if fs_sci f then
        (let sep = (if fs_capital f then ''E'' else ''e'')
         in printSci f w (fn_mantissa n) (fn_exponent n) sep wd)
      else printFixed f w (fn_mantissa n) (fn_exponent n) wd)"

definition PrintField ::
    "formatSpec \<Rightarrow> fmtState \<Rightarrow> sink \<Rightarrow> FiniteNumber \<Rightarrow> world \<Rightarrow>
     (panic + (sink \<times> world)) option" where
  "PrintField f state w n wd =
     (case st_Width state of
        (width, widthOk) \<Rightarrow>
          if \<not> widthOk then PrintNumber f w n wd
          else (case PrintNumber f new_Builder n wd of
                  None \<Rightarrow> None
                | Some (Inl e) \<Rightarrow> Some (Inl e)
                | Some (Inr (builder, wd)) \<Rightarrow>
                    (let field = Builder_String builder;
                         w = (if \<not> st_FlagMinus state \<and> int (length field) < width
                              then Fprint w (replicate (nat (width - int (length field))) CHR '' '')
                              else w);
                         w = Fprint w field;
                         w = (if st_FlagMinus state \<and> int (length field) < width
                              then Fprint w (replicate (nat (width - int (length field))) CHR '' '')
                              else w)
                     in Some (Inr (w, wd)))))"

definition FiniteNumber_String ::
    "FiniteNumber \<Rightarrow> world \<Rightarrow> (panic + (string \<times> world)) option" where
  "FiniteNumber_String n wd =
     (let fs = formatSpecForG gPrecision (fn_exponent n) False
      in (case PrintNumber fs new_Builder n wd of
            None \<Rightarrow> None
          | Some (Inl e) \<Rightarrow> Some (Inl e)
          | Some (Inr (builder, wd)) \<Rightarrow> Some (Inr (Builder_String builder, wd))))"

definition FiniteNumber_Exact ::
    "FiniteNumber \<Rightarrow> world \<Rightarrow> (panic + (string \<times> world)) option" where
  "FiniteNumber_Exact n wd =
     (let fs = formatSpecForG maxInt (fn_exponent n) False
      in (case PrintNumber fs new_Builder n wd of
            None \<Rightarrow> None
          | Some (Inl e) \<Rightarrow> Some (Inl e)
          | Some (Inr (builder, wd)) \<Rightarrow> Some (Inr (Builder_String builder, wd))))"

text \<open>
  \<open>Format\<close> has no result. The \<open>fmt.State\<close> is both the flags and the writer; the
  model passes the two apart and returns the writer after the call.
\<close>

definition FiniteNumber_Format ::
    "FiniteNumber \<Rightarrow> fmtState \<Rightarrow> sink \<Rightarrow> char \<Rightarrow> world \<Rightarrow> (panic + (sink \<times> world)) option" where
  "FiniteNumber_Format n state w verb wd =
     (case newFormatSpec state verb (fn_exponent n) of
        (formatSpec, ok) \<Rightarrow>
          if \<not> ok then
            (case FiniteNumber_String n wd of
               None \<Rightarrow> None
             | Some (Inl e) \<Rightarrow> Some (Inl e)
             | Some (Inr (str, wd)) \<Rightarrow>
                 Some (Inr (Fprint w (''%!'' @ [verb] @ ''(number='' @ str @ '')''), wd)))
          else PrintField formatSpec state w n wd)"

fun Number_String :: "Number \<Rightarrow> world \<Rightarrow> (panic + (string \<times> world)) option" where
  "Number_String (FiniteNum n) wd = FiniteNumber_String n wd"
| "Number_String (OpqNum a n) wd = Number_String n wd"

fun Number_Format ::
    "Number \<Rightarrow> fmtState \<Rightarrow> sink \<Rightarrow> char \<Rightarrow> world \<Rightarrow> (panic + (sink \<times> world)) option" where
  "Number_Format (FiniteNum n) state w verb wd = FiniteNumber_Format n state w verb wd"
| "Number_Format (OpqNum a n) state w verb wd = Number_Format n state w verb wd"

section \<open>Printing through package fmt\<close>

text \<open>
  \<open>Format\<close> has no result, and neither have \<open>PrintField\<close>, \<open>PrintNumber\<close> and
  \<open>Finish\<close>: a caller prints a Number with \<open>fmt.Fprintf(w, format, n)\<close>, and what it
  gets back is what \<open>Fprintf\<close> returns. \<open>Fprintf\<close> is from the Go standard library
  (fmt/print.go; not part of this repository). For a format that is one directive
  whose verb fmt hands to the operand's \<open>Format\<close> method (every verb but T and p,
  which fmt prints from the type and the address), it does this: the printer is the
  \<open>fmt.State\<close>; its \<open>Write\<close> appends to the printer's buffer and never fails, its
  \<open>Width\<close>, \<open>Precision\<close> and \<open>Flag\<close> report the directive; when \<open>Format\<close> has
  returned, \<open>Fprintf\<close> hands the buffer to \<open>w\<close> in one \<open>Write\<close> and returns the
  count and the error of that call. A writer is its state and its \<open>Write\<close> method.
  (A panic of \<open>Format\<close> is recovered by fmt and printed in place of the number;
  the model gives the panic and leaves that text out.)
\<close>

definition newPrinter :: sink where
  "newPrinter = \<lparr>sk_accepted = [], sk_calls = [], sk_script = []\<rparr>"

definition fmt_Fprintf ::
    "('w \<Rightarrow> string \<Rightarrow> 'c \<times> bool \<times> 'w) \<Rightarrow> 'w \<Rightarrow> fmtState \<Rightarrow> char \<Rightarrow> Number \<Rightarrow> world \<Rightarrow>
     (panic + ('c \<times> bool \<times> 'w \<times> world)) option" where
  "fmt_Fprintf Write w state verb n wd =
     (case Number_Format n state newPrinter verb wd of
        None \<Rightarrow> None
      | Some (Inl e) \<Rightarrow> Some (Inl e)
      | Some (Inr (p, wd)) \<Rightarrow>
          (case Write w (sk_accepted p) of
             (k, err, w) \<Rightarrow> Some (Inr (k, err, w, wd))))"

text \<open>
  The writer of the package's own test of write errors (format_number_test.go):
  it accepts \<open>maxBytes\<close> bytes in all and fails the \<open>Write\<close> that would exceed them.
\<close>

record maxBytesWriter =
  mb_maxBytes :: int
  mb_bytesWritten :: int

definition maxBytesWriter_Write :: "maxBytesWriter \<Rightarrow> string \<Rightarrow> int \<times> bool \<times> maxBytesWriter" where
  "maxBytesWriter_Write m p =
     (let len = int (length p)
      in if len \<le> mb_maxBytes m - mb_bytesWritten m
         then (len, False, m\<lparr>mb_bytesWritten := mb_bytesWritten m + len\<rparr>)
         else (let diff = mb_maxBytes m - mb_bytesWritten m
               in (diff, True, m\<lparr>mb_bytesWritten := mb_bytesWritten m + diff\<rparr>)))"

text \<open>A writer on which no \<open>Write\<close> has failed and none will.\<close>

definition neverFails :: "sink \<Rightarrow> bool" where
  "neverFails s \<longleftrightarrow>
     sk_script s = [] \<and> (\<forall>c\<in>set (sk_calls s). \<not> snd c) \<and>
     concat (map fst (sk_calls s)) = sk_accepted s"

section \<open>The recurrences of the root managers\<close>

text \<open>
  Claim C2. The code of both managers computes exactly the recurrences of the
  specification: for the square root, \<open>Next\<close> adds 2 and \<open>NextDigit\<close> gives
  \<open>(incr - 1) * 10 + 1\<close>, with base 100; for the cube root, \<open>incr2\<close> starts at 6,
  \<open>Next\<close> gives \<open>incr + incr2\<close> and then \<open>incr2 + 6\<close>, \<open>NextDigit\<close> gives
  \<open>incr * 100 - 45 * incr2 + 171\<close> and then \<open>incr2 * 10 - 54\<close>, with base 1000.
\<close>

theorem rootManager_recurrences:
  "Next newSqrtManager incr = (SqrtManager, spec_sqrt_next incr) \<and>
   NextDigit newSqrtManager incr = (SqrtManager, spec_sqrt_nextDigit incr) \<and>
   Base newSqrtManager = spec_sqrt_base \<and>
   newCubeRootManager = CubeRootManager spec_cube_initial_incr2 \<and>
   Next (CubeRootManager incr2) incr =
     (CubeRootManager (snd (spec_cube_next (incr, incr2))), fst (spec_cube_next (incr, incr2))) \<and>
   NextDigit (CubeRootManager incr2) incr =
     (CubeRootManager (snd (spec_cube_nextDigit (incr, incr2))),
      fst (spec_cube_nextDigit (incr, incr2))) \<and>
   Base (CubeRootManager incr2) = spec_cube_base"
  by (simp add: newSqrtManager_def newCubeRootManager_def spec_sqrt_next_def
      spec_sqrt_nextDigit_def spec_sqrt_base_def spec_cube_initial_incr2_def spec_cube_next_def
      spec_cube_nextDigit_def spec_cube_base_def)

section \<open>Correctness of the digit producer\<close>

lemma Base_degree: "Base m = 10 ^ degree m"
  by (cases m) simp_all

lemma powDiff_pos: "0 \<le> x \<Longrightarrow> 0 < powDiff m x"
proof (cases m)
  case SqrtManager
  assume "0 \<le> x"
  then show ?thesis using SqrtManager
    by (simp add: powDiff_def power2_eq_square algebra_simps)
next
  case (CubeRootManager i2)
  assume x: "0 \<le> x"
  then have xx: "0 \<le> x * x" by simp
  have "powDiff m x = 3 * (x * x) + 3 * x + 1"
    using CubeRootManager by (simp add: powDiff_def power3_eq_cube algebra_simps)
  with x xx show ?thesis by linarith
qed

lemma Next_at: "Next (managerAt m x) (powDiff m x) = (managerAt m (x + 1), powDiff m (x + 1))"
  by (cases m) (simp_all add: powDiff_def power2_eq_square power3_eq_cube algebra_simps)

lemma NextDigit_at: "NextDigit (managerAt m x) (powDiff m x) = (managerAt m (10 * x), powDiff m (10 * x))"
  by (cases m) (simp_all add: powDiff_def power2_eq_square power3_eq_cube algebra_simps)

declare digitLoop.simps [simp del]

lemma digitLoop_root:
  assumes "0 \<le> x" "x ^ degree m \<le> G"
  shows "\<exists>y. x \<le> y \<and> y ^ degree m \<le> G \<and> G < (y + 1) ^ degree m \<and>
           digitLoop (managerAt m x) (G - x ^ degree m) (powDiff m x) d =
             (managerAt m y, G - y ^ degree m, powDiff m y, d + (y - x))"
  using assms
proof (induction "nat (G - x ^ degree m)" arbitrary: x d rule: less_induct)
  case less
  show ?case
  proof (cases "(x + 1) ^ degree m \<le> G")
    case True
    have pos: "0 < powDiff m x" using less.prems(1) by (rule powDiff_pos)
    have lt: "nat (G - (x + 1) ^ degree m) < nat (G - x ^ degree m)"
      using pos True by (simp add: powDiff_def)
    from less.hyps[OF lt, of "d + 1"] less.prems True
    obtain y where y: "x + 1 \<le> y" "y ^ degree m \<le> G" "G < (y + 1) ^ degree m"
      "digitLoop (managerAt m (x + 1)) (G - (x + 1) ^ degree m) (powDiff m (x + 1)) (d + 1) =
         (managerAt m y, G - y ^ degree m, powDiff m y, d + 1 + (y - (x + 1)))"
      by auto
    have "digitLoop (managerAt m x) (G - x ^ degree m) (powDiff m x) d =
          digitLoop (managerAt m (x + 1)) (G - (x + 1) ^ degree m) (powDiff m (x + 1)) (d + 1)"
      using True by (subst digitLoop.simps) (simp add: Next_at, simp add: powDiff_def)
    with y show ?thesis by (intro exI[of _ y]) simp
  next
    case False
    have "digitLoop (managerAt m x) (G - x ^ degree m) (powDiff m x) d =
          (managerAt m x, G - x ^ degree m, powDiff m x, d)"
      using False by (subst digitLoop.simps) (simp add: powDiff_def)
    with False less.prems show ?thesis by (intro exI[of _ x]) simp
  qed
qed


lemma groups_call_live:
  assumes "0 < g_denom gs" "0 \<le> g_num gs" "g_num gs < g_denom gs" "0 < g_base gs"
  shows "\<exists>ng gs' q. groups_call gs = Inr (ng, gs') \<and> q = (case ng of None \<Rightarrow> 0 | Some v \<Rightarrow> v) \<and>
           (ng = None \<longleftrightarrow> g_num gs = 0) \<and>
           g_denom gs' = g_denom gs \<and> g_base gs' = g_base gs \<and>
           0 \<le> g_num gs' \<and> g_num gs' < g_denom gs \<and> 0 \<le> q \<and> q < g_base gs \<and>
           q * g_denom gs + g_num gs' = g_num gs * g_base gs"
proof (cases "g_num gs = 0")
  case True
  then show ?thesis using assms by (simp add: groups_call_def)
next
  case False
  let ?q = "(g_num gs * g_base gs) div g_denom gs"
  let ?r = "(g_num gs * g_base gs) mod g_denom gs"
  have call: "groups_call gs = Inr (Some ?q, gs\<lparr>g_num := ?r\<rparr>)"
    using False assms(1) by (simp add: groups_call_def big_DivMod_def)
  have q0: "0 \<le> ?q" using assms by (simp add: pos_imp_zdiv_nonneg_iff)
  have r: "0 \<le> ?r" "?r < g_denom gs" using assms(1) by simp_all
  have eq: "?q * g_denom gs + ?r = g_num gs * g_base gs" by simp
  have "g_num gs * g_base gs < g_base gs * g_denom gs"
    using assms by (simp add: mult.commute[of "g_base gs"] mult_strict_right_mono)
  with r(1) eq have "?q * g_denom gs < g_base gs * g_denom gs"
    by linarith
  then have q1: "?q < g_base gs"
    using assms(1) by (simp only: mult_less_cancel_right_pos)
  show ?thesis using call q0 q1 r eq False by simp
qed

lemma pow_lt_imp_lt:
  fixes y z :: int
  assumes "y ^ n < z ^ n" "0 \<le> z"
  shows "y < z"
proof (rule ccontr)
  assume "\<not> y < z"
  then have "z \<le> y" by simp
  with assms(2) have "z ^ n \<le> y ^ n" by (simp add: power_mono)
  with assms(1) show False by simp
qed

lemma rootDigits_call_step:
  assumes inv: "rdInv m num2 denom3 j R st"
  shows "\<exists>d st'. rootDigits_call st = Inr (d, st') \<and> - 1 \<le> d \<and> d \<le> 9 \<and>
           rdInv m num2 denom3 (Suc j) (R * 10 + max 0 d) st' \<and>
           (d = - 1 \<longleftrightarrow> g_num (rd_groups st) = 0 \<and> rd_remainder st = 0)"
proof -
  let ?n = "degree m"
  let ?b = "Base m"
  let ?gs = "rd_groups st"
  let ?rem = "rd_remainder st"
  have b: "?b = 10 ^ ?n" by (rule Base_degree)
  have bpos: "0 < ?b" by (simp add: b)
  from inv have R: "0 \<le> R" and d3: "0 < denom3" and gd: "g_denom ?gs = denom3"
    and gb: "g_base ?gs = ?b" and rb: "rd_base st = ?b"
    and gn: "0 \<le> g_num ?gs" "g_num ?gs < denom3"
    and I1: "(?rem + R ^ ?n) * denom3 + g_num ?gs = num2 * ?b ^ j"
    and rem: "0 \<le> ?rem" "?rem < (R + 1) ^ ?n - R ^ ?n"
    and live: "(rd_incr st = powDiff m (10 * R) \<and> rd_manager st = managerAt m (10 * R)) \<or>
               (g_num ?gs = 0 \<and> ?rem = 0)"
    by (simp_all add: rdInv_def)
  have tenR: "(10 * R) ^ ?n = ?b * R ^ ?n" by (simp add: b power_mult_distrib)
  have tenR1: "(10 * R + 10) ^ ?n = ?b * (R + 1) ^ ?n"
  proof -
    have "10 * R + 10 = 10 * (R + 1)" by simp
    then show ?thesis by (simp only: b power_mult_distrib)
  qed
  show ?thesis
  proof (cases "g_num ?gs = 0 \<and> ?rem = 0")
    case True
    then have call: "rootDigits_call st = Inr (- 1, st)"
      by (simp add: rootDigits_call_def groups_call_def)
    from I1 True have "R ^ ?n * denom3 = num2 * ?b ^ j" by simp
    then have e: "?b * (R ^ ?n * denom3) = ?b * (num2 * ?b ^ j)" by (simp only:)
    have "(10 * R) ^ ?n * denom3 = ?b * (R ^ ?n * denom3)"
      by (simp only: tenR mult.assoc)
    also note e
    also have "?b * (num2 * ?b ^ j) = num2 * ?b ^ Suc j"
      by (simp only: power_Suc mult.left_commute)
    finally have I1': "(10 * R) ^ ?n * denom3 = num2 * ?b ^ Suc j" .
    have pd: "0 < (10 * R + 1) ^ ?n - (10 * R) ^ ?n"
      using powDiff_pos[of "10 * R" m] R by (simp add: powDiff_def)
    have "rdInv m num2 denom3 (Suc j) (R * 10) st"
      unfolding rdInv_def using True R d3 gd gb rb I1' pd by (simp add: mult.commute)
    with call True show ?thesis by simp
  next
    case False
    with live have lv: "rd_incr st = powDiff m (10 * R)" "rd_manager st = managerAt m (10 * R)"
      by auto
    from groups_call_live[of ?gs] gd gb gn d3 bpos
    obtain ng gs' q where g: "groups_call ?gs = Inr (ng, gs')"
      and q: "q = (case ng of None \<Rightarrow> 0 | Some v \<Rightarrow> v)"
      and ngN: "ng = None \<longleftrightarrow> g_num ?gs = 0"
      and gd': "g_denom gs' = denom3" and gb': "g_base gs' = ?b"
      and gn': "0 \<le> g_num gs'" "g_num gs' < denom3"
      and qb: "0 \<le> q" "q < ?b"
      and qeq: "q * denom3 + g_num gs' = g_num ?gs * ?b"
      by auto
    define rem' where "rem' = ?rem * ?b + q"
    define G where "G = rem' + (10 * R) ^ ?n"
    have rem'0: "0 \<le> rem'" using rem(1) bpos qb(1) by (simp add: rem'_def)
    have x0: "0 \<le> 10 * R" using R by simp
    have xG: "(10 * R) ^ ?n \<le> G" using rem'0 by (simp add: G_def)
    from digitLoop_root[OF x0 xG, of 0]
    obtain y where y: "10 * R \<le> y" "y ^ ?n \<le> G" "G < (y + 1) ^ ?n"
      and dl: "digitLoop (managerAt m (10 * R)) (G - (10 * R) ^ ?n) (powDiff m (10 * R)) 0 =
                 (managerAt m y, G - y ^ ?n, powDiff m y, 0 + (y - 10 * R))"
      by blast
    have Grem: "G - (10 * R) ^ ?n = rem'" by (simp add: G_def)
    define st' where "st' = \<lparr>rd_groups = gs', rd_manager = managerAt m (10 * y), rd_base = ?b,
                               rd_incr = powDiff m (10 * y), rd_remainder = G - y ^ ?n\<rparr>"
    have notboth: "\<not> (ng = None \<and> ?rem = 0)" using False ngN by simp
    have dl': "digitLoop (managerAt m (10 * R)) rem' (powDiff m (10 * R)) 0 =
                 (managerAt m y, G - y ^ ?n, powDiff m y, y - 10 * R)"
      using dl by (simp only: Grem add_0)
    have "rootDigits_call st =
            (case digitLoop (rd_manager st) rem' (rd_incr st) 0 of
               (m, remainder, incr, digit) \<Rightarrow>
                 (case NextDigit m incr of
                    (m, incr) \<Rightarrow>
                      Inr (digit, \<lparr>rd_groups = gs', rd_manager = m, rd_base = rd_base st,
                                   rd_incr = incr, rd_remainder = remainder\<rparr>)))"
      using notboth g q by (cases ng) (simp_all add: rootDigits_call_def rem'_def rb)
    then have call: "rootDigits_call st = Inr (y - 10 * R, st')"
      by (simp add: lv dl' NextDigit_at st'_def rb)
    have "?rem + 1 \<le> (R + 1) ^ ?n - R ^ ?n" using rem(2) by simp
    then have "(?rem + 1) * ?b \<le> ((R + 1) ^ ?n - R ^ ?n) * ?b"
      using bpos by (simp add: mult_right_mono)
    moreover have "rem' < (?rem + 1) * ?b" using qb(2) by (simp add: rem'_def algebra_simps)
    ultimately have "rem' < ((R + 1) ^ ?n - R ^ ?n) * ?b" by simp
    also have "\<dots> = (10 * R + 10) ^ ?n - (10 * R) ^ ?n"
      unfolding tenR tenR1 by (simp add: algebra_simps)
    finally have "G < (10 * R + 10) ^ ?n"
      by (simp only: G_def)
    with y(2) have "y ^ ?n < (10 * R + 10) ^ ?n" by simp
    then have yub: "y < 10 * R + 10" using R by (intro pow_lt_imp_lt[of y ?n]) simp_all
    have y0: "0 \<le> y" using y(1) R by simp
    have "G * denom3 + g_num gs' = ?b * ((?rem + R ^ ?n) * denom3 + g_num ?gs)"
      using qeq unfolding G_def rem'_def tenR by (simp add: algebra_simps)
    then have I1': "G * denom3 + g_num gs' = num2 * ?b ^ Suc j"
      using I1 by (simp add: mult_ac)
    have val: "R * 10 + max 0 (y - 10 * R) = y" using y(1) by simp
    have "rdInv m num2 denom3 (Suc j) y st'"
      unfolding rdInv_def using y0 d3 gd' gb' gn' I1' y(2,3)
      by (simp add: st'_def)
    with call val y(1) yub False show ?thesis by simp
  qed
qed


lemma rootDigits_calls_inv:
  assumes "rdInv m num2 denom3 j R st"
  shows "\<exists>ds st'. rootDigits_calls k st = Inr (ds, st') \<and> length ds = k \<and>
           (\<forall>d\<in>set ds. - 1 \<le> d \<and> d \<le> 9) \<and>
           rdInv m num2 denom3 (j + k) (digitsValue R ds) st'"
  using assms
proof (induction k arbitrary: j R st)
  case 0
  then show ?case by simp
next
  case (Suc k)
  from rootDigits_call_step[OF Suc.prems]
  obtain d st1 where s: "rootDigits_call st = Inr (d, st1)" "- 1 \<le> d" "d \<le> 9"
      "rdInv m num2 denom3 (Suc j) (R * 10 + max 0 d) st1"
    by blast
  from Suc.IH[OF s(4)]
  obtain ds st' where t: "rootDigits_calls k st1 = Inr (ds, st')" "length ds = k"
      "\<forall>d\<in>set ds. - 1 \<le> d \<and> d \<le> 9"
      "rdInv m num2 denom3 (Suc j + k) (digitsValue (R * 10 + max 0 d) ds) st'"
    by blast
  show ?case
    using s(1-3) t by (intro exI[of _ "d # ds"] exI[of _ st']) simp
qed

lemma rdInv_bounds:
  assumes "rdInv m num2 denom3 j R st"
  shows "R ^ degree m * denom3 \<le> num2 * Base m ^ j"
    and "num2 * Base m ^ j < (R + 1) ^ degree m * denom3"
    and "0 \<le> R"
proof -
  let ?n = "degree m"
  let ?rem = "rd_remainder st"
  let ?g = "g_num (rd_groups st)"
  from assms have d3: "0 < denom3" and g: "0 \<le> ?g" "?g < denom3"
    and I1: "(?rem + R ^ ?n) * denom3 + ?g = num2 * Base m ^ j"
    and rem: "0 \<le> ?rem" "?rem < (R + 1) ^ ?n - R ^ ?n" and R: "0 \<le> R"
    by (simp_all add: rdInv_def)
  have a: "0 \<le> ?rem * denom3" using rem(1) d3 by simp
  have "?rem + R ^ ?n + 1 \<le> (R + 1) ^ ?n" using rem(2) by simp
  then have b: "(?rem + R ^ ?n + 1) * denom3 \<le> (R + 1) ^ ?n * denom3"
    using d3 by (simp only: mult_right_mono less_imp_le)
  have c: "(?rem + R ^ ?n) * denom3 = ?rem * denom3 + R ^ ?n * denom3"
    by (simp only: distrib_right)
  have e: "(?rem + R ^ ?n + 1) * denom3 = ?rem * denom3 + R ^ ?n * denom3 + denom3"
    by (simp only: distrib_right mult_1)
  show "R ^ ?n * denom3 \<le> num2 * Base m ^ j" using a c I1 g(1) by linarith
  show "num2 * Base m ^ j < (R + 1) ^ ?n * denom3" using b e c I1 g(2) by linarith
  show "0 \<le> R" by (rule R)
qed

lemma shiftNum_returns:
  assumes "0 < num" "1 < base"
  shows "\<exists>k. shiftNum num denom base e = Some (num * base ^ k, e - int k) \<and>
           denom \<le> num * base ^ k \<and> (\<forall>i<k. num * base ^ i < denom)"
  using assms(1)
proof (induction "nat (denom - num)" arbitrary: num e rule: less_induct)
  case less
  show ?case
  proof (cases "num < denom")
    case False
    then have "shiftNum num denom base e = Some (num, e)"
      by (subst shiftNum.simps) simp
    with False show ?thesis by (intro exI[of _ 0]) simp
  next
    case True
    have "num * 2 \<le> num * base" using less.prems assms(2) by (intro mult_left_mono) simp_all
    then have gt: "num < num * base" using less.prems by linarith
    then have lt: "nat (denom - num * base) < nat (denom - num)" using True by simp
    have pos: "0 < num * base" using gt less.prems by linarith
    from less.hyps[OF lt pos, of "e - 1"]
    obtain k where k: "shiftNum (num * base) denom base (e - 1) =
        Some (num * base * base ^ k, e - 1 - int k)"
      "denom \<le> num * base * base ^ k" "\<forall>i<k. num * base * base ^ i < denom"
      by blast
    have "shiftNum num denom base e = shiftNum (num * base) denom base (e - 1)"
      using True by (subst shiftNum.simps) simp
    with k(1) have r: "shiftNum num denom base e = Some (num * base ^ Suc k, e - int (Suc k))"
      by (simp add: mult.assoc)
    have all: "\<forall>i<Suc k. num * base ^ i < denom"
    proof (intro allI impI)
      fix i assume "i < Suc k"
      then show "num * base ^ i < denom"
        using True k(3) by (cases i) (simp_all add: mult.assoc)
    qed
    show ?thesis using r k(2) all by (intro exI[of _ "Suc k"]) (simp add: mult.assoc)
  qed
qed

lemma shiftDenom_returns:
  assumes "0 < denom" "1 < base"
  shows "\<exists>k. shiftDenom num denom base e = Some (denom * base ^ k, e + int k) \<and>
           num < denom * base ^ k \<and> (\<forall>i<k. denom * base ^ i \<le> num)"
  using assms(1)
proof (induction "nat (num - denom + 1)" arbitrary: denom e rule: less_induct)
  case less
  show ?case
  proof (cases "denom \<le> num")
    case False
    then have "shiftDenom num denom base e = Some (denom, e)"
      by (subst shiftDenom.simps) simp
    with False show ?thesis by (intro exI[of _ 0]) simp
  next
    case True
    have "denom * 2 \<le> denom * base" using less.prems assms(2) by (intro mult_left_mono) simp_all
    then have gt: "denom < denom * base" using less.prems by linarith
    then have lt: "nat (num - denom * base + 1) < nat (num - denom + 1)" using True by simp
    have pos: "0 < denom * base" using gt less.prems by linarith
    from less.hyps[OF lt pos, of "e + 1"]
    obtain k where k: "shiftDenom num (denom * base) base (e + 1) =
        Some (denom * base * base ^ k, e + 1 + int k)"
      "num < denom * base * base ^ k" "\<forall>i<k. denom * base * base ^ i \<le> num"
      by blast
    have "shiftDenom num denom base e = shiftDenom num (denom * base) base (e + 1)"
      using True by (subst shiftDenom.simps) simp
    with k(1) have r: "shiftDenom num denom base e = Some (denom * base ^ Suc k, e + int (Suc k))"
      by (simp add: mult.assoc)
    have all: "\<forall>i<Suc k. denom * base ^ i \<le> num"
    proof (intro allI impI)
      fix i assume "i < Suc k"
      then show "denom * base ^ i \<le> num"
        using True k(3) by (cases i) (simp_all add: mult.assoc)
    qed
    show ?thesis using r k(2) all by (intro exI[of _ "Suc k"]) (simp add: mult.assoc)
  qed
qed


lemma computeGroupsFromRational_returns:
  assumes "0 < num" "0 < denom" "1 < base"
  shows "\<exists>gs e. computeGroupsFromRational num denom base = Some (Inr (gs, e)) \<and>
           g_base gs = base \<and> 0 < g_num gs \<and> g_num gs < g_denom gs \<and>
           g_denom gs \<le> g_num gs * base \<and>
           ((0 \<le> e \<and> g_num gs = num \<and> g_denom gs = denom * base ^ nat e) \<or>
            (e \<le> 0 \<and> g_num gs = num * base ^ nat (- e) \<and> g_denom gs = denom))"
proof (cases "num < denom")
  case True
  from shiftNum_returns[OF assms(1,3), of denom 0]
  obtain k where k: "shiftNum num denom base 0 = Some (num * base ^ k, 0 - int k)"
    "denom \<le> num * base ^ k" "\<forall>i<k. num * base ^ i < denom"
    by blast
  from True k(2) have "k \<noteq> 0" by (intro notI) simp
  then obtain k' where k': "k = Suc k'" by (cases k) simp_all
  have b0: "base \<noteq> 0" "0 < base" using assms(3) by simp_all
  have dv: "big_Div (num * base ^ k) base = Inr (num * base ^ k')"
    using b0 by (simp add: big_Div_def big_DivMod_def k')
  have lt: "num * base ^ k' < denom" using k(3) k' by simp
  have sd: "shiftDenom (num * base ^ k') denom base (0 - int k + 1) = Some (denom, 0 - int k + 1)"
    using lt by (subst shiftDenom.simps) simp
  have pos: "0 < num * base ^ k'" using assms(1) b0(2) by simp
  have "computeGroupsFromRational num denom base =
          Some (Inr (\<lparr>g_num = num * base ^ k', g_denom = denom, g_base = base\<rparr>, - int k'))"
    using k(1) dv sd by (simp add: computeGroupsFromRational_def k')
  moreover have "denom \<le> num * base ^ k' * base" using k(2) by (simp add: k' mult_ac)
  ultimately show ?thesis using lt pos by simp
next
  case False
  have sn: "shiftNum num denom base 0 = Some (num, 0)"
    using False by (subst shiftNum.simps) simp
  from shiftDenom_returns[OF assms(2,3), of num 0]
  obtain k where k: "shiftDenom num denom base 0 = Some (denom * base ^ k, 0 + int k)"
    "num < denom * base ^ k" "\<forall>i<k. denom * base ^ i \<le> num"
    by blast
  from False k(2) have "k \<noteq> 0" by (intro notI) simp
  then obtain k' where k': "k = Suc k'" by (cases k) simp_all
  have le: "denom * base ^ k' \<le> num" using k(3) k' by simp
  then have "denom * base ^ k' * base \<le> num * base"
    using assms(3) by (intro mult_right_mono) simp_all
  then have le': "denom * base ^ k \<le> num * base" by (simp add: k' mult_ac)
  have "computeGroupsFromRational num denom base =
          Some (Inr (\<lparr>g_num = num, g_denom = denom * base ^ k, g_base = base\<rparr>, int k))"
    using sn k(1) by (simp add: computeGroupsFromRational_def)
  then show ?thesis using k(2) le' assms(1) by simp
qed

lemma computeRootDigits_inv:
  assumes "m = newSqrtManager \<or> m = newCubeRootManager"
    and "g_base gs = Base m" "0 < g_num gs" "g_num gs < g_denom gs"
  shows "rdInv m (g_num gs) (g_denom gs) 0 0 (computeRootDigits gs m)"
  using assms
  by (auto simp: rdInv_def computeRootDigits_def powDiff_def newSqrtManager_def
      newCubeRootManager_def)


lemma scaled_power:
  fixes X :: int
  shows "((of_int X :: rat) / 10 ^ k * 10 powi e) ^ n =
         of_int (X ^ n) / (10 ^ n) ^ k * (10 ^ n) powi e"
proof -
  have "((10::rat) powi e) ^ n = (10 ^ n) powi e"
    by (simp add: power_int_power power_int_power' mult.commute)
  moreover have "((10::rat) ^ k) ^ n = (10 ^ n) ^ k"
    by (simp add: power_mult[symmetric] mult.commute)
  ultimately show ?thesis
    by (simp add: power_mult_distrib power_divide)
qed

lemma normalised_radicand:
  fixes num denom num2 denom3 e :: int and B :: int
  assumes "0 < denom" "0 < B"
    and "(0 \<le> e \<and> num2 = num \<and> denom3 = denom * B ^ nat e) \<or>
         (e \<le> 0 \<and> num2 = num * B ^ nat (- e) \<and> denom3 = denom)"
  shows "(of_int num / of_int denom :: rat) = of_int num2 / of_int denom3 * of_int B powi e"
  using assms(3)
proof (elim disjE conjE)
  assume e: "0 \<le> e" and "num2 = num" "denom3 = denom * B ^ nat e"
  then show ?thesis using assms(1,2) by (simp add: power_int_nonneg_exp)
next
  assume e: "e \<le> 0" and n: "num2 = num * B ^ nat (- e)" "denom3 = denom"
  have "(of_int B :: rat) powi e = inverse (of_int B powi (- e))"
    by (simp add: power_int_minus)
  also have "\<dots> = inverse (of_int B ^ nat (- e))"
    using e by (simp add: power_int_nonneg_exp)
  finally show ?thesis using n assms(1,2) by (simp add: field_simps)
qed

lemma root_bounds_rat:
  fixes R num denom num2 denom3 e :: int
  assumes "0 < denom" "0 < denom3"
    and norm: "(0 \<le> e \<and> num2 = num \<and> denom3 = denom * (10 ^ n) ^ nat e) \<or>
               (e \<le> 0 \<and> num2 = num * (10 ^ n) ^ nat (- e) \<and> denom3 = denom)"
    and lo: "R ^ n * denom3 \<le> num2 * (10 ^ n) ^ k"
    and hi: "num2 * (10 ^ n) ^ k < (R + 1) ^ n * denom3"
  shows "(of_int R / 10 ^ k * 10 powi e) ^ n \<le> (of_int num / of_int denom :: rat)"
    and "(of_int num / of_int denom :: rat) <
           (of_int R / 10 ^ k * 10 powi e + 10 powi (e - int k)) ^ n"
proof -
  let ?B = "(10::rat) ^ n"
  have T: "(of_int num / of_int denom :: rat) = of_int num2 / of_int denom3 * ?B powi e"
    using normalised_radicand[OF assms(1) _ norm] by simp
  have Be: "0 < ?B powi e" by simp
  have Bk: "0 < ?B ^ k" by simp
  have d3: "(0::rat) < of_int denom3" using assms(2) by simp
  have "(of_int (R ^ n * denom3) :: rat) \<le> of_int (num2 * (10 ^ n) ^ k)"
    using lo by (simp only: of_int_le_iff)
  then have "(of_int (R ^ n) :: rat) * of_int denom3 \<le> of_int num2 * ?B ^ k" by simp
  then have "(of_int (R ^ n) :: rat) / ?B ^ k \<le> of_int num2 / of_int denom3"
    using d3 Bk by (simp add: field_simps)
  then have "(of_int (R ^ n) :: rat) / ?B ^ k * ?B powi e \<le> of_int num2 / of_int denom3 * ?B powi e"
    using Be by (simp only: mult_le_cancel_right_pos)
  then show "(of_int R / 10 ^ k * 10 powi e) ^ n \<le> (of_int num / of_int denom :: rat)"
    by (simp only: scaled_power T)
  have "(of_int (num2 * (10 ^ n) ^ k) :: rat) < of_int ((R + 1) ^ n * denom3)"
    using hi by (simp only: of_int_less_iff)
  then have "(of_int num2 :: rat) * ?B ^ k < of_int ((R + 1) ^ n) * of_int denom3" by simp
  then have "of_int num2 / of_int denom3 < (of_int ((R + 1) ^ n) :: rat) / ?B ^ k"
    using d3 Bk by (simp add: field_simps)
  then have "of_int num2 / of_int denom3 * ?B powi e <
             (of_int ((R + 1) ^ n) :: rat) / ?B ^ k * ?B powi e"
    using Be by (simp only: mult_less_cancel_right_pos)
  then have "(of_int num / of_int denom :: rat) < (of_int (R + 1) / 10 ^ k * 10 powi e) ^ n"
    by (simp only: scaled_power T)
  moreover have "(of_int (R + 1) :: rat) / 10 ^ k * 10 powi e =
                 of_int R / 10 ^ k * 10 powi e + 10 powi (e - int k)"
    by (simp add: power_int_diff field_simps)
  ultimately show "(of_int num / of_int denom :: rat) <
           (of_int R / 10 ^ k * 10 powi e + 10 powi (e - int k)) ^ n"
    by (simp only:)
qed


lemma Generate_returns:
  assumes "0 < num" "0 < denom" "m = newSqrtManager \<or> m = newCubeRootManager"
  shows "\<exists>digits e num2 denom3.
           nrootGenerator_Generate num denom m = Some (Inr (digits, e)) \<and>
           rdInv m num2 denom3 0 0 digits \<and> 0 < num2 \<and> 0 < denom3 \<and> denom3 \<le> num2 * Base m \<and>
           num2 < denom3 \<and> g_num (rd_groups digits) = num2 \<and> rd_remainder digits = 0 \<and>
           ((0 \<le> e \<and> num2 = num \<and> denom3 = denom * Base m ^ nat e) \<or>
            (e \<le> 0 \<and> num2 = num * Base m ^ nat (- e) \<and> denom3 = denom))"
proof -
  have "1 < Base m" by (cases m) simp_all
  from computeGroupsFromRational_returns[OF assms(1,2) this]
  obtain gs e where g: "computeGroupsFromRational num denom (Base m) = Some (Inr (gs, e))"
    "g_base gs = Base m" "0 < g_num gs" "g_num gs < g_denom gs" "g_denom gs \<le> g_num gs * Base m"
    "(0 \<le> e \<and> g_num gs = num \<and> g_denom gs = denom * Base m ^ nat e) \<or>
     (e \<le> 0 \<and> g_num gs = num * Base m ^ nat (- e) \<and> g_denom gs = denom)"
    by blast
  have G: "nrootGenerator_Generate num denom m = Some (Inr (computeRootDigits gs m, e))"
    using g(1) by (simp add: nrootGenerator_Generate_def)
  have inv: "rdInv m (g_num gs) (g_denom gs) 0 0 (computeRootDigits gs m)"
    using assms(3) g(2,3,4) by (rule computeRootDigits_inv)
  have "0 < g_denom gs" using g(3,4) by simp
  with G inv g(3,4,5,6) show ?thesis
    by (intro exI[of _ "computeRootDigits gs m"] exI[of _ e] exI[of _ "g_num gs"]
        exI[of _ "g_denom gs"]) (simp add: computeRootDigits_def)
qed

lemma rdInv_exact:
  assumes "rdInv m num2 denom3 j R st"
  shows "(g_num (rd_groups st) = 0 \<and> rd_remainder st = 0) \<longleftrightarrow>
         R ^ degree m * denom3 = num2 * Base m ^ j"
proof -
  let ?n = "degree m"
  let ?rem = "rd_remainder st"
  let ?g = "g_num (rd_groups st)"
  from assms have d3: "0 < denom3" and g: "0 \<le> ?g"
    and I1: "(?rem + R ^ ?n) * denom3 + ?g = num2 * Base m ^ j"
    and rem: "0 \<le> ?rem"
    by (simp_all add: rdInv_def)
  have c: "(?rem + R ^ ?n) * denom3 = ?rem * denom3 + R ^ ?n * denom3"
    by (simp only: distrib_right)
  have a: "0 \<le> ?rem * denom3" using rem d3 by simp
  show ?thesis
  proof
    assume "?g = 0 \<and> ?rem = 0"
    with I1 show "R ^ ?n * denom3 = num2 * Base m ^ j" by simp
  next
    assume "R ^ ?n * denom3 = num2 * Base m ^ j"
    with I1 c have z: "?rem * denom3 + ?g = 0" by linarith
    with a g have "?rem * denom3 = 0" "?g = 0" by linarith+
    with d3 show "?g = 0 \<and> ?rem = 0" by simp
  qed
qed

lemma rootDigits_calls_end:
  assumes "rdInv m num2 denom3 j R st"
  shows "\<exists>ds st'. rootDigits_calls k st = Inr (ds, st') \<and> length ds = k \<and>
           (\<forall>i<k. (ds ! i = - 1 \<longleftrightarrow>
                     digitsValue R (take i ds) ^ degree m * denom3 = num2 * Base m ^ (j + i)) \<and>
                   (ds ! i \<noteq> - 1 \<longrightarrow> 0 \<le> ds ! i \<and> ds ! i \<le> 9))"
  using assms
proof (induction k arbitrary: j R st)
  case 0
  then show ?case by simp
next
  case (Suc k)
  from rootDigits_call_step[OF Suc.prems]
  obtain d st1 where s: "rootDigits_call st = Inr (d, st1)" "- 1 \<le> d" "d \<le> 9"
      "rdInv m num2 denom3 (Suc j) (R * 10 + max 0 d) st1"
      "d = - 1 \<longleftrightarrow> g_num (rd_groups st) = 0 \<and> rd_remainder st = 0"
    by blast
  from s(5) rdInv_exact[OF Suc.prems]
  have d: "d = - 1 \<longleftrightarrow> R ^ degree m * denom3 = num2 * Base m ^ j" by simp
  from Suc.IH[OF s(4)]
  obtain ds st' where t: "rootDigits_calls k st1 = Inr (ds, st')" "length ds = k"
      "\<forall>i<k. (ds ! i = - 1 \<longleftrightarrow>
                digitsValue (R * 10 + max 0 d) (take i ds) ^ degree m * denom3 =
                  num2 * Base m ^ (Suc j + i)) \<and>
              (ds ! i \<noteq> - 1 \<longrightarrow> 0 \<le> ds ! i \<and> ds ! i \<le> 9)"
    by blast
  have "(\<forall>i<Suc k. ((d # ds) ! i = - 1 \<longleftrightarrow>
                     digitsValue R (take i (d # ds)) ^ degree m * denom3 = num2 * Base m ^ (j + i)) \<and>
                   ((d # ds) ! i \<noteq> - 1 \<longrightarrow> 0 \<le> (d # ds) ! i \<and> (d # ds) ! i \<le> 9))"
  proof (intro allI impI)
    fix i assume i: "i < Suc k"
    show "((d # ds) ! i = - 1 \<longleftrightarrow>
             digitsValue R (take i (d # ds)) ^ degree m * denom3 = num2 * Base m ^ (j + i)) \<and>
          ((d # ds) ! i \<noteq> - 1 \<longrightarrow> 0 \<le> (d # ds) ! i \<and> (d # ds) ! i \<le> 9)"
    proof (cases i)
      case 0
      have "d \<noteq> - 1 \<longrightarrow> 0 \<le> d" using s(2) by linarith
      with 0 d s(3) show ?thesis by simp
    next
      case (Suc i')
      with i have "i' < k" by simp
      with t(3) Suc show ?thesis by simp
    qed
  qed
  with s(1) t(1,2) show ?case
    by (intro exI[of _ "d # ds"] exI[of _ st']) simp
qed

lemma digitsValue_snoc: "digitsValue r (ds @ [d]) = digitsValue r ds * 10 + max 0 d"
  by (induction ds arbitrary: r) simp_all

lemma root_exact_rat:
  fixes R num denom num2 denom3 e :: int
  assumes "0 < denom" "0 < denom3"
    and norm: "(0 \<le> e \<and> num2 = num \<and> denom3 = denom * (10 ^ n) ^ nat e) \<or>
               (e \<le> 0 \<and> num2 = num * (10 ^ n) ^ nat (- e) \<and> denom3 = denom)"
  shows "R ^ n * denom3 = num2 * (10 ^ n) ^ k \<longleftrightarrow>
         (of_int R / 10 ^ k * 10 powi e) ^ n = (of_int num / of_int denom :: rat)"
proof -
  let ?B = "(10::rat) ^ n"
  have T: "(of_int num / of_int denom :: rat) = of_int num2 / of_int denom3 * ?B powi e"
    using normalised_radicand[OF assms(1) _ norm] by simp
  have Be: "?B powi e \<noteq> 0" by simp
  have Bk: "?B ^ k \<noteq> 0" by simp
  have d3: "(of_int denom3 :: rat) \<noteq> 0" using assms(2) by simp
  have "R ^ n * denom3 = num2 * (10 ^ n) ^ k \<longleftrightarrow>
        (of_int (R ^ n * denom3) :: rat) = of_int (num2 * (10 ^ n) ^ k)"
    by (simp only: of_int_eq_iff)
  also have "\<dots> \<longleftrightarrow> (of_int (R ^ n) :: rat) * of_int denom3 = of_int num2 * ?B ^ k" by simp
  also have "\<dots> \<longleftrightarrow> (of_int (R ^ n) :: rat) / ?B ^ k = of_int num2 / of_int denom3"
    using d3 Bk by (simp add: field_simps)
  also have "\<dots> \<longleftrightarrow> (of_int (R ^ n) :: rat) / ?B ^ k * ?B powi e =
                        of_int num2 / of_int denom3 * ?B powi e"
    using Be by (simp only: mult_cancel_right) simp
  also have "\<dots> \<longleftrightarrow> (of_int R / 10 ^ k * 10 powi e) ^ n = (of_int num / of_int denom :: rat)"
    by (simp only: scaled_power T)
  finally show ?thesis .
qed


lemma end_marker_persists:
  fixes ds :: "int list" and B num2 denom3 :: int
  assumes B: "B = 10 ^ n"
    and E: "\<forall>i<length ds. ds ! i = - 1 \<longleftrightarrow> digitsValue 0 (take i ds) ^ n * denom3 = num2 * B ^ i"
    and i: "i \<le> j" "j < length ds" "ds ! i = - 1"
  shows "ds ! j = - 1"
proof -
  have "j < length ds \<longrightarrow> ds ! j = - 1"
    using i(1)
  proof (induction j rule: dec_induct)
    case base
    show ?case using i(3) by simp
  next
    case (step j)
    show ?case
    proof
      assume sj: "Suc j < length ds"
      with step have j: "j < length ds" and dj: "ds ! j = - 1" by simp_all
      let ?V = "digitsValue 0 (take j ds)"
      from E j dj have Ej: "?V ^ n * denom3 = num2 * B ^ j" by simp
      have "digitsValue 0 (take (Suc j) ds) = ?V * 10"
        using j dj by (simp add: take_Suc_conv_app_nth digitsValue_snoc)
      then have "digitsValue 0 (take (Suc j) ds) ^ n * denom3 = B * (?V ^ n * denom3)"
        by (simp add: B power_mult_distrib)
      also have "\<dots> = num2 * B ^ Suc j" by (simp only: Ej) simp
      finally show "ds ! Suc j = - 1" using E sj by simp
    qed
  qed
  with i(2) show ?thesis by simp
qed

text \<open>
  Claim C1. For a radicand \<open>num / denom\<close> with \<open>num > 0\<close> and \<open>denom > 0\<close> and the
  manager of degree \<open>n\<close> (2 or 3), \<open>Generate\<close> returns a digit closure and an exponent
  \<open>e\<close>, the first \<open>k\<close> calls of the closure return, and the mantissa \<open>0.d1...dk\<close>
  they write satisfies
  \<open>(0.d1...dk * 10^e)^n \<le> num / denom < (0.d1...dk * 10^e + 10^(e - k))^n\<close>:
  the digits are those of the \<open>n\<close>-th root, truncated. A call returns the end marker
  \<open>-1\<close> exactly when the digits returned before it already write the exact root,
  and every later call returns \<open>-1\<close> again; every other result is a digit \<open>0..9\<close>.
  (Past the end of a terminating expansion the missing digits count as 0.)
\<close>

theorem nroot_digits_truncate_root:
  assumes "0 < num" "0 < denom"
    and "(n = 2 \<and> m = newSqrtManager) \<or> (n = 3 \<and> m = newCubeRootManager)"
  shows "\<exists>digits e ds st.
           nrootGenerator_Generate num denom m = Some (Inr (digits, e)) \<and>
           rootDigits_calls k digits = Inr (ds, st) \<and> length ds = k \<and>
           (\<forall>d\<in>set ds. - 1 \<le> d \<and> d \<le> 9) \<and>
           (\<forall>i<k. (ds ! i = - 1 \<longleftrightarrow>
                      (mantissaValue (take i ds) * 10 powi e) ^ n = of_int num / of_int denom) \<and>
                   (ds ! i = - 1 \<longrightarrow> (\<forall>j. i \<le> j \<and> j < k \<longrightarrow> ds ! j = - 1)) \<and>
                   (ds ! i \<noteq> - 1 \<longrightarrow> 0 \<le> ds ! i \<and> ds ! i \<le> 9)) \<and>
           (mantissaValue ds * 10 powi e) ^ n \<le> of_int num / of_int denom \<and>
           of_int num / of_int denom < (mantissaValue ds * 10 powi e + 10 powi (e - int k)) ^ n"
proof -
  from assms(3) have m: "m = newSqrtManager \<or> m = newCubeRootManager" and n: "n = degree m"
    by (auto simp: newSqrtManager_def newCubeRootManager_def)
  from Generate_returns[OF assms(1,2) m]
  obtain digits e num2 denom3 where
    G: "nrootGenerator_Generate num denom m = Some (Inr (digits, e))"
    and inv: "rdInv m num2 denom3 0 0 digits" and d3: "0 < denom3"
    and norm: "(0 \<le> e \<and> num2 = num \<and> denom3 = denom * Base m ^ nat e) \<or>
               (e \<le> 0 \<and> num2 = num * Base m ^ nat (- e) \<and> denom3 = denom)"
    by blast
  from rootDigits_calls_inv[OF inv, of k]
  obtain ds st where c: "rootDigits_calls k digits = Inr (ds, st)" "length ds = k"
    "\<forall>d\<in>set ds. - 1 \<le> d \<and> d \<le> 9" "rdInv m num2 denom3 (0 + k) (digitsValue 0 ds) st"
    by blast
  from rootDigits_calls_end[OF inv, of k] c(1)
  have en: "\<forall>i<k. (ds ! i = - 1 \<longleftrightarrow>
                     digitsValue 0 (take i ds) ^ n * denom3 = num2 * (10 ^ n) ^ i) \<and>
                   (ds ! i \<noteq> - 1 \<longrightarrow> 0 \<le> ds ! i \<and> ds ! i \<le> 9)"
    by (auto simp: n Base_degree)
  note b = rdInv_bounds(1,2)[OF c(4), unfolded Base_degree add_0]
  note r = root_bounds_rat[OF assms(2) d3 norm[unfolded Base_degree] b]
  note x = root_exact_rat[OF assms(2) d3 norm[unfolded Base_degree]]
  have E: "\<forall>i<length ds. ds ! i = - 1 \<longleftrightarrow>
             digitsValue 0 (take i ds) ^ n * denom3 = num2 * (10 ^ n) ^ i"
    using en c(2) by simp
  have ex: "ds ! i = - 1 \<longleftrightarrow>
              (mantissaValue (take i ds) * 10 powi e) ^ n = of_int num / of_int denom"
    if "i < k" for i
  proof -
    have "length (take i ds) = i" using that c(2) by simp
    then have "mantissaValue (take i ds) = of_int (digitsValue 0 (take i ds)) / 10 ^ i"
      by (simp add: mantissaValue_def)
    with en that x[of "digitsValue 0 (take i ds)" i, folded n] show ?thesis
      by (simp add: n)
  qed
  have pe: "ds ! j = - 1" if "i \<le> j" "j < k" "ds ! i = - 1" for i j
    using end_marker_persists[OF refl E, of i j] that c(2) by simp
  have "\<forall>i<k. (ds ! i = - 1 \<longleftrightarrow>
                 (mantissaValue (take i ds) * 10 powi e) ^ n = of_int num / of_int denom) \<and>
               (ds ! i = - 1 \<longrightarrow> (\<forall>j. i \<le> j \<and> j < k \<longrightarrow> ds ! j = - 1)) \<and>
               (ds ! i \<noteq> - 1 \<longrightarrow> 0 \<le> ds ! i \<and> ds ! i \<le> 9)"
    using ex pe en by blast
  then show ?thesis
    using G c(1-3) r by (intro exI[of _ digits] exI[of _ e] exI[of _ ds] exI[of _ st])
      (simp add: mantissaValue_def n)
qed

theorem nroot_digits_truncate_root_witness:
  "(0::int) < 100489 \<and> (0::int) < 1 \<and>
   (\<exists>digits e ds st.
      nrootGenerator_Generate 100489 1 newSqrtManager = Some (Inr (digits, e)) \<and>
      rootDigits_calls 5 digits = Inr (ds, st) \<and> length ds = 5 \<and>
      (\<forall>d\<in>set ds. - 1 \<le> d \<and> d \<le> 9) \<and>
      (\<forall>i<5. (ds ! i = - 1 \<longleftrightarrow>
                 (mantissaValue (take i ds) * 10 powi e) ^ 2 = of_int 100489 / of_int 1) \<and>
              (ds ! i = - 1 \<longrightarrow> (\<forall>j. i \<le> j \<and> j < 5 \<longrightarrow> ds ! j = - 1)) \<and>
              (ds ! i \<noteq> - 1 \<longrightarrow> 0 \<le> ds ! i \<and> ds ! i \<le> 9)) \<and>
      (mantissaValue ds * 10 powi e) ^ 2 \<le> of_int 100489 / of_int 1 \<and>
      of_int 100489 / of_int 1 < (mantissaValue ds * 10 powi e + 10 powi (e - int 5)) ^ 2)"
  using nroot_digits_truncate_root[of 100489 1 2 newSqrtManager 5] by simp

section \<open>The first digit and the range of the mantissa\<close>

lemma pow_swap: "((a::int) ^ n) ^ k = (a ^ k) ^ n"
proof -
  have "(a ^ n) ^ k = a ^ (n * k)" by (rule power_mult[symmetric])
  also have "\<dots> = a ^ (k * n)" by (rule arg_cong[OF mult.commute])
  also have "\<dots> = (a ^ k) ^ n" by (rule power_mult)
  finally show ?thesis .
qed

lemma rdInv_range:
  assumes inv: "rdInv m num2 denom3 (Suc k) R st"
    and n2: "num2 < denom3" "denom3 \<le> num2 * Base m"
  shows "10 ^ k \<le> R" and "R < 10 ^ Suc k"
proof -
  let ?n = "degree m"
  let ?b = "Base m"
  note lo = rdInv_bounds(1)[OF inv] and hi = rdInv_bounds(2)[OF inv] and R = rdInv_bounds(3)[OF inv]
  from inv have d3: "0 < denom3" by (simp add: rdInv_def)
  have b10: "?b ^ j = (10 ^ j) ^ ?n" for j
    unfolding Base_degree by (rule pow_swap)
  have bpos: "0 < ?b ^ Suc k" unfolding b10 by simp
  have bk: "0 \<le> ?b ^ k" unfolding b10 by simp
  have "num2 * ?b ^ Suc k < denom3 * ?b ^ Suc k"
    using n2(1) bpos by (rule mult_strict_right_mono)
  with lo have "R ^ ?n * denom3 < denom3 * ?b ^ Suc k" by (rule le_less_trans)
  also have "\<dots> = ?b ^ Suc k * denom3" by (rule mult.commute)
  finally have "R ^ ?n < ?b ^ Suc k" using d3 by (simp only: mult_less_cancel_right_pos)
  then have "R ^ ?n < (10 ^ Suc k) ^ ?n" unfolding b10 .
  then show "R < 10 ^ Suc k" by (rule pow_lt_imp_lt) simp
  have "denom3 * ?b ^ k \<le> num2 * ?b * ?b ^ k"
    using n2(2) bk by (rule mult_right_mono)
  also have "\<dots> = num2 * ?b ^ Suc k" by (simp only: power_Suc mult.assoc)
  also note hi
  finally have "denom3 * ?b ^ k < (R + 1) ^ ?n * denom3" .
  then have "?b ^ k * denom3 < (R + 1) ^ ?n * denom3"
    by (subst mult.commute)
  then have "?b ^ k < (R + 1) ^ ?n" using d3 by (simp only: mult_less_cancel_right_pos)
  then have "(10 ^ k) ^ ?n < (R + 1) ^ ?n" by (subst b10[symmetric])
  moreover have "0 \<le> R + 1" using R by simp
  ultimately have "10 ^ k < R + 1" by (rule pow_lt_imp_lt)
  then show "10 ^ k \<le> R" by simp
qed


lemma rootDigits_calls_Suc_hd:
  assumes "rootDigits_call st = Inr (d, st1)" "rootDigits_calls (Suc k) st = Inr (ds, st')"
  shows "hd ds = d"
  using assms by (auto split: sum.splits prod.splits)

text \<open>
  Claim C3. For a radicand \<open>num / denom\<close> with \<open>num > 0\<close> and \<open>denom > 0\<close> and either
  base (100 with the square-root manager, 1000 with the cube-root manager),
  \<open>computeGroupsFromRational\<close> returns and the first digit the closure of
  \<open>computeRootDigits\<close> yields lies in 1..9; hence the mantissa \<open>0.d1d2...dk\<close> written
  by the first \<open>k \<ge> 1\<close> results lies in [1/10, 1).
\<close>

theorem first_digit_between_1_and_9:
  assumes "0 < num" "0 < denom"
    and "(b = 100 \<and> m = newSqrtManager) \<or> (b = 1000 \<and> m = newCubeRootManager)"
  shows "\<exists>gs e digit st.
           computeGroupsFromRational num denom b = Some (Inr (gs, e)) \<and>
           rootDigits_call (computeRootDigits gs m) = Inr (digit, st) \<and>
           1 \<le> digit \<and> digit \<le> 9 \<and>
           (\<forall>k\<ge>1. \<exists>ds st'.
              rootDigits_calls k (computeRootDigits gs m) = Inr (ds, st') \<and>
              hd ds = digit \<and> 1 / 10 \<le> mantissaValue ds \<and> mantissaValue ds < 1)"
proof -
  from assms(3) have m: "m = newSqrtManager \<or> m = newCubeRootManager" and b: "b = Base m"
    by (auto simp: newSqrtManager_def newCubeRootManager_def)
  have b1: "1 < Base m" by (cases m) simp_all
  from computeGroupsFromRational_returns[OF assms(1,2) b1]
  obtain gs e where g: "computeGroupsFromRational num denom (Base m) = Some (Inr (gs, e))"
    "g_base gs = Base m" "0 < g_num gs" "g_num gs < g_denom gs" "g_denom gs \<le> g_num gs * Base m"
    by blast
  let ?st = "computeRootDigits gs m"
  have inv: "rdInv m (g_num gs) (g_denom gs) 0 0 ?st"
    using m g(2,3,4) by (rule computeRootDigits_inv)
  from rootDigits_call_step[OF inv]
  obtain d st1 where s: "rootDigits_call ?st = Inr (d, st1)" "- 1 \<le> d" "d \<le> 9"
    "rdInv m (g_num gs) (g_denom gs) (Suc 0) (0 * 10 + max 0 d) st1"
    "d = - 1 \<longleftrightarrow> g_num (rd_groups ?st) = 0 \<and> rd_remainder ?st = 0"
    by blast
  have "d \<noteq> - 1" using s(5) g(3) by (simp add: computeRootDigits_def)
  with s(2) have d0: "0 \<le> d" by simp
  with s(4) have inv1: "rdInv m (g_num gs) (g_denom gs) (Suc 0) d st1" by simp
  from rdInv_range(1)[OF inv1 g(4,5)] have d1: "1 \<le> d" by simp
  have rng: "\<exists>ds st'. rootDigits_calls k ?st = Inr (ds, st') \<and> hd ds = d \<and>
               1 / 10 \<le> mantissaValue ds \<and> mantissaValue ds < 1" if k: "1 \<le> k" for k
  proof -
    from k obtain k' where k': "k = Suc k'" by (cases k) simp_all
    from rootDigits_calls_inv[OF inv, of k]
    obtain ds st' where c: "rootDigits_calls k ?st = Inr (ds, st')" "length ds = k"
      "rdInv m (g_num gs) (g_denom gs) (0 + k) (digitsValue 0 ds) st'"
      by blast
    have hd: "hd ds = d" using s(1) c(1) unfolding k' by (rule rootDigits_calls_Suc_hd)
    from c(3) have inv': "rdInv m (g_num gs) (g_denom gs) (Suc k') (digitsValue 0 ds) st'"
      by (simp add: k')
    note r = rdInv_range[OF inv' g(4,5)]
    have "(10::rat) ^ k' \<le> of_int (digitsValue 0 ds)"
      using r(1) by (metis of_int_le_iff of_int_numeral of_int_power)
    then have lo: "1 / 10 \<le> mantissaValue ds"
      by (simp add: mantissaValue_def c(2) k' field_simps)
    have "of_int (digitsValue 0 ds) < (10::rat) ^ Suc k'"
      using r(2) by (metis of_int_less_iff of_int_numeral of_int_power)
    then have hi: "mantissaValue ds < 1"
      by (simp add: mantissaValue_def c(2) k' field_simps)
    show ?thesis using c(1) hd lo hi by blast
  qed
  show ?thesis
    using g(1) s(1) d1 s(3) rng unfolding b by blast
qed

theorem first_digit_between_1_and_9_witness:
  "(0::int) < 3 \<and> (0::int) < 70000 \<and>
   (\<exists>gs e digit st.
      computeGroupsFromRational 3 70000 100 = Some (Inr (gs, e)) \<and>
      rootDigits_call (computeRootDigits gs newSqrtManager) = Inr (digit, st) \<and>
      1 \<le> digit \<and> digit \<le> 9 \<and>
      (\<forall>k\<ge>1. \<exists>ds st'.
         rootDigits_calls k (computeRootDigits gs newSqrtManager) = Inr (ds, st') \<and>
         hd ds = digit \<and> 1 / 10 \<le> mantissaValue ds \<and> mantissaValue ds < 1))"
  using first_digit_between_1_and_9[of 3 70000 100 newSqrtManager] by simp

section \<open>The format of the g, G and v verbs\<close>

text \<open>
  Claim C7. The \<open>fmt.State\<close> that \<open>Format\<close> receives comes from package fmt, which
  reports a precision only when the format gives one, and then never a negative
  one. For such a state and the g, G and v verbs the resolved format has
  \<open>sigDigits = max precision 1\<close> (precision 16 when unspecified),
  \<open>exactDigitCount = false\<close>, and is scientific exactly when \<open>sigDigits < exponent\<close>
  or \<open>exponent < -3\<close> or \<open>exponent > 6\<close>.
\<close>

theorem g_verb_format:
  assumes "verb = CHR ''g'' \<or> verb = CHR ''G'' \<or> verb = CHR ''v''"
    and "snd (st_Precision state) \<longrightarrow> 0 \<le> fst (st_Precision state)"
  shows "\<exists>fs. newFormatSpec state verb exponent = (fs, True) \<and>
           fs_sigDigits fs = max (gPrecisionOf state) 1 \<and>
           fs_exactDigitCount fs = False \<and>
           (fs_sci fs \<longleftrightarrow> fs_sigDigits fs < exponent \<or> exponent < - 3 \<or> exponent > 6)"
  using assms
  by (cases "st_Precision state")
     (auto simp: newFormatSpec_def formatSpecForG_def gPrecisionOf_def gPrecision_def
        bigExponent_def Let_def)

theorem g_verb_format_witness:
  "\<exists>fs. newFormatSpec \<lparr>st_Width = (0, False), st_Precision = (0, True), st_FlagMinus = False\<rparr>
            (CHR ''v'') 7 = (fs, True) \<and>
         fs_sigDigits fs = 1 \<and> fs_exactDigitCount fs = False \<and> fs_sci fs"
  using g_verb_format[of "CHR ''v''"
      "\<lparr>st_Width = (0, False), st_Precision = (0, True), st_FlagMinus = False\<rparr>" 7]
  by (simp add: gPrecisionOf_def)

section \<open>Negative positions\<close>

lemma numberSpec_At_negative:
  "p < 0 \<Longrightarrow> validSpec spec \<Longrightarrow> spec \<noteq> NilSpec \<Longrightarrow> numberSpec_At w spec p = Some (Inr (- 1, w))"
proof (induction spec arbitrary: p)
  case NilSpec
  then show ?case by simp
next
  case (MemoizerSpec a)
  then show ?case by (simp add: memoizer_At_def)
next
  case (LimitSpec l delegate limit)
  then have d: "validSpec delegate" "delegate \<noteq> NilSpec" by simp_all
  show ?case
  proof (cases "limit \<le> p")
    case True
    with LimitSpec.prems(1) have "limit < 0" by simp
    from LimitSpec.IH[OF this d] True show ?thesis by simp
  next
    case False
    with LimitSpec.IH[OF LimitSpec.prems(1) d] show ?thesis by simp
  qed
qed

text \<open>
  Claim C9. For every Number (zero or not, limited or not, opaque or not) and every
  negative position \<open>p\<close>, \<open>At(p)\<close> returns \<open>-1\<close>: it returns, it does not panic, and
  it leaves the store as it was, so no digit production is triggered; \<open>Scan\<close> and
  \<open>ScanValues\<close> of a memoizer panic on a negative start index.
\<close>

theorem At_negative_position:
  assumes "p < 0" "validSpec (Number_mantissa N)"
  shows "Number_At w N p = Some (Inr (- 1, w)) \<and>
         memoizer_Scan w a p limit yield s = Some (Inl IndexMustBeNonNegative) \<and>
         memoizer_ScanValues w a p limit yield' s = Some (Inl IndexMustBeNonNegative)"
proof -
  have "Number_At w N p = Some (Inr (- 1, w))"
    using assms(2)
  proof (induction N)
    case (FiniteNum n)
    then show ?case
      using assms(1) by (simp add: FiniteNumber_At_def mantissa_At_def numberSpec_At_negative)
  next
    case (OpqNum b n)
    then show ?case by simp
  qed
  then show ?thesis using assms(1) by (simp add: memoizer_Scan_def memoizer_ScanValues_def)
qed


theorem At_negative_position_witness:
  "(- 1 :: int) < 0 \<and>
   Number_At initialWorld
     (OpqNum 0 (FiniteNum \<lparr>fn_addr = 1, fn_mantissa = LimitSpec 0 (MemoizerSpec 0) 5,
                            fn_exponent = 1\<rparr>)) (- 1) = Some (Inr (- 1, initialWorld)) \<and>
   memoizer_Scan initialWorld 0 (- 1) 10 (\<lambda>s i v. (True, s)) () =
     Some (Inl IndexMustBeNonNegative)"
  using At_negative_position[of "- 1"
      "OpqNum 0 (FiniteNum \<lparr>fn_addr = 1, fn_mantissa = LimitSpec 0 (MemoizerSpec 0) 5,
                             fn_exponent = 1\<rparr>)" initialWorld 0 10 "\<lambda>s i v. (True, s)" "()"]
  by simp

section \<open>Zero results\<close>

lemma nRootFrac_zero:
  "0 < denom \<Longrightarrow> Context_nRootFrac c 0 denom m w = Some (Inr (FiniteNum zeroNumber, c, w))"
  by (simp add: Context_nRootFrac_def checkNumDenom_def)

lemma NewNumberForTesting_zero:
  "Context_NewNumberForTesting c [] [] e w = Some (Inr (Inr (FiniteNum zeroNumber), c, w))"
  by (simp add: Context_NewNumberForTesting_def)

lemma NewNumber_zero:
  assumes "Generate g = Some (Inr (digits, e))" "digits_call digits = Inr (first, digits')"
    "first = 0 \<or> digitOutOfRange first"
  shows "Context_NewNumber c g w = Some (Inr (FiniteNum zeroNumber, c, w))"
  using assms by (auto simp: Context_NewNumber_def)

text \<open>
  Claim C10. Every factory call whose result is zero returns the shared
  \<open>zeroNumber\<close> (address 0, exponent 0, empty mantissa) and leaves the store and the
  Context as they were: no memoizer, no goroutine, nothing registered. The calls are
  the square-root and cube-root factories with numerator 0, \<open>NewNumberForTesting\<close> and
  \<open>NewFiniteNumber\<close> with no digits, and \<open>NewNumber\<close> on a generator whose first
  digit is 0 or out of range.
\<close>

theorem zero_results_share_zeroNumber:
  assumes "0 < denom"
    and "Generate g = Some (Inr (digits, e))" "digits_call digits = Inr (first, digits')"
    and "first = 0 \<or> digitOutOfRange first"
  shows "Context_Sqrt c 0 w = Some (Inr (FiniteNum zeroNumber, c, w)) \<and>
         Context_SqrtRat c 0 denom w = Some (Inr (FiniteNum zeroNumber, c, w)) \<and>
         Context_SqrtBigInt c 0 w = Some (Inr (FiniteNum zeroNumber, c, w)) \<and>
         Context_SqrtBigRat c 0 w = Some (Inr (FiniteNum zeroNumber, c, w)) \<and>
         Context_CubeRoot c 0 w = Some (Inr (FiniteNum zeroNumber, c, w)) \<and>
         Context_CubeRootRat c 0 denom w = Some (Inr (FiniteNum zeroNumber, c, w)) \<and>
         Context_CubeRootBigInt c 0 w = Some (Inr (FiniteNum zeroNumber, c, w)) \<and>
         Context_CubeRootBigRat c 0 w = Some (Inr (FiniteNum zeroNumber, c, w)) \<and>
         Context_NewNumberForTesting c [] [] expo w =
           Some (Inr (Inr (FiniteNum zeroNumber), c, w)) \<and>
         Context_NewFiniteNumber c [] expo w = Some (Inr (Inr zeroNumber, c, w)) \<and>
         Context_NewNumber c g w = Some (Inr (FiniteNum zeroNumber, c, w)) \<and>
         fn_addr zeroNumber = 0 \<and> FiniteNumber_Exponent zeroNumber = 0 \<and>
         fn_mantissa zeroNumber = NilSpec \<and> FiniteNumber_IsZero zeroNumber"
  using assms(1) NewNumber_zero[OF assms(2-4)]
  by (simp add: Context_Sqrt_def Context_SqrtRat_def Context_SqrtBigInt_def Context_SqrtBigRat_def
      Context_CubeRoot_def Context_CubeRootRat_def Context_CubeRootBigInt_def
      Context_CubeRootBigRat_def nRootFrac_zero NewNumberForTesting_zero
      Context_NewFiniteNumber_def zeroNumber_def FiniteNumber_Exponent_def
      FiniteNumber_IsZero_def mantissa_IsZero_def)

theorem zero_results_share_zeroNumber_witness:
  "Context_SqrtRat None 0 7 initialWorld = Some (Inr (FiniteNum zeroNumber, None, initialWorld)) \<and>
   Context_NewNumber None (UserGenerator (\<lambda>k. 0) 5) initialWorld =
     Some (Inr (FiniteNum zeroNumber, None, initialWorld)) \<and>
   Context_NewNumber None (RepeatingGenerator [12, 3] [] 2) initialWorld =
     Some (Inr (FiniteNum zeroNumber, None, initialWorld))"
  using zero_results_share_zeroNumber[of 7 "UserGenerator (\<lambda>k. 0) 5" "UserFn (\<lambda>k. 0) 0" 5 0
      "UserFn (\<lambda>k. 0) 1" None initialWorld 0]
    zero_results_share_zeroNumber[of 7 "RepeatingGenerator [12, 3] [] 2"
      "RepeatingFn [12, 3] [] 0 0" 2 12 "RepeatingFn [12, 3] [] 1 0" None initialWorld 0]
  by (simp add: digitOutOfRange_def)

section \<open>WithSignificant\<close>

lemma withLimit_again:
  assumes "0 < L" "L \<le> L'" "allocatedSpec w spec" "withLimit spec L w = (spec', w1)"
  shows "withLimit spec' L' w2 = (spec', w2)"
  using assms
  by (cases spec) (auto simp: withLimit_def new_limitSpec_def split: if_splits)

lemma withLimit_zero: "withLimit spec 0 w = (NilSpec, w)"
  by (simp add: withLimit_def)

lemma withLimit_Nil: "withLimit NilSpec L w = (NilSpec, w)"
  by (simp add: withLimit_def)

lemma withLimit_sameSpec:
  assumes "0 < L" "allocatedSpec w spec" "withLimit spec L w = (spec', w1)" "spec \<noteq> NilSpec"
  shows "spec' \<noteq> NilSpec \<and> (sameSpec spec' spec \<longrightarrow> spec' = spec \<and> w1 = w)"
  using assms
  by (cases spec) (auto simp: withLimit_def new_limitSpec_def split: if_splits)

lemma sameSpec_refl: "sameSpec x x"
  by (cases x) simp_all

lemma FiniteNumber_WithSignificant_again:
  assumes "0 \<le> L" "L \<le> L'" "allocatedSpec w (fn_mantissa n)"
  shows "\<exists>A w1. FiniteNumber_WithSignificant n L w = Inr (A, w1) \<and>
           FiniteNumber_WithSignificant A L' w1 = Inr (A, w1) \<and>
           (L = 0 \<longrightarrow> FiniteNumber_IsZero A \<and> (\<not> FiniteNumber_IsZero n \<longrightarrow> A = zeroNumber))"
proof (cases "L = 0 \<or> fn_mantissa n = NilSpec")
  case True
  then have wl: "withLimit (fn_mantissa n) L w = (NilSpec, w)"
    by (auto simp: withLimit_def)
  show ?thesis
  proof (cases "fn_mantissa n = NilSpec")
    case True
    then show ?thesis
      using assms(1,2) wl
      by (simp add: FiniteNumber_WithSignificant_def mantissa_WithLimit_def
          FiniteNumber_withMantissa_def withLimit_Nil FiniteNumber_IsZero_def mantissa_IsZero_def)
  next
    case False
    then have "\<not> sameSpec NilSpec (fn_mantissa n)" by (cases "fn_mantissa n") simp_all
    then show ?thesis
      using assms(1,2) wl False
      by (simp add: FiniteNumber_WithSignificant_def mantissa_WithLimit_def
          FiniteNumber_withMantissa_def withLimit_Nil FiniteNumber_IsZero_def mantissa_IsZero_def
          zeroNumber_def)
  qed
next
  case False
  then have L: "0 < L" and nn: "fn_mantissa n \<noteq> NilSpec" using assms(1) by simp_all
  obtain spec' w1 where wl: "withLimit (fn_mantissa n) L w = (spec', w1)" by force
  note again = withLimit_again[OF L assms(2,3) wl]
  from withLimit_sameSpec[OF L assms(3) wl nn]
  have s: "spec' \<noteq> NilSpec" "sameSpec spec' (fn_mantissa n) \<longrightarrow> spec' = fn_mantissa n \<and> w1 = w"
    by simp_all
  show ?thesis
  proof (cases "sameSpec spec' (fn_mantissa n)")
    case True
    with s(2) have e: "spec' = fn_mantissa n" "w1 = w" by simp_all
    show ?thesis
      using assms(1,2) wl again L e
      by (simp add: FiniteNumber_WithSignificant_def mantissa_WithLimit_def
          FiniteNumber_withMantissa_def sameSpec_refl)
  next
    case False
    show ?thesis
      using assms(1,2) wl again L False s(1)
      by (simp add: FiniteNumber_WithSignificant_def mantissa_WithLimit_def
          FiniteNumber_withMantissa_def sameSpec_refl mantissa_IsZero_def new_FiniteNumber_def)
  qed
qed

text \<open>
  Claim C6. For every Number \<open>N\<close> (whose \<open>limitSpec\<close>, if it has one, was handed out
  by the store) and limits \<open>0 \<le> L \<le> L'\<close>, \<open>N.WithSignificant(L).WithSignificant(L')\<close>
  returns the very pointer \<open>N.WithSignificant(L)\<close> returned, allocating nothing;
  \<open>WithSignificant\<close> panics on a negative limit, and for limit 0 it returns a zero
  number, which is \<open>zeroNumber\<close> itself unless \<open>N\<close> already is a zero number.
\<close>

theorem WithSignificant_monotone_idempotent:
  assumes "allocatedSpec w (Number_mantissa N)"
  shows "(0 \<le> L \<and> L \<le> L' \<longrightarrow>
           (\<exists>A w1. Number_WithSignificant N L w = Inr (A, w1) \<and>
                    FiniteNumber_WithSignificant A L' w1 = Inr (A, w1))) \<and>
         (L < 0 \<longrightarrow> Number_WithSignificant N L w = Inl LimitMustBeNonNegative) \<and>
         (\<exists>Z w1. Number_WithSignificant N 0 w = Inr (Z, w1) \<and> FiniteNumber_IsZero Z \<and>
                  (\<not> Number_IsZero N \<longrightarrow> Z = zeroNumber))"
  using assms
proof (induction N)
  case (FiniteNum n)
  have a: "\<exists>A w1. FiniteNumber_WithSignificant n L w = Inr (A, w1) \<and>
                   FiniteNumber_WithSignificant A L' w1 = Inr (A, w1)"
    if "0 \<le> L" "L \<le> L'"
    using FiniteNumber_WithSignificant_again[OF that, of w n] FiniteNum by auto
  have b: "L < 0 \<Longrightarrow> FiniteNumber_WithSignificant n L w = Inl LimitMustBeNonNegative"
    by (simp add: FiniteNumber_WithSignificant_def)
  have c: "\<exists>Z w1. FiniteNumber_WithSignificant n 0 w = Inr (Z, w1) \<and> FiniteNumber_IsZero Z \<and>
                   (\<not> FiniteNumber_IsZero n \<longrightarrow> Z = zeroNumber)"
    using FiniteNumber_WithSignificant_again[of 0 0 w n] FiniteNum by auto
  show ?case using a b c by simp
next
  case (OpqNum x N)
  then show ?case by simp
qed

theorem WithSignificant_monotone_idempotent_witness:
  "\<exists>A w1. Number_WithSignificant
             (OpqNum 0 (FiniteNum \<lparr>fn_addr = 1, fn_mantissa = MemoizerSpec 0, fn_exponent = 1\<rparr>))
             6 initialWorld = Inr (A, w1) \<and>
           FiniteNumber_WithSignificant A 7 w1 = Inr (A, w1)"
  using WithSignificant_monotone_idempotent[of initialWorld
      "OpqNum 0 (FiniteNum \<lparr>fn_addr = 1, fn_mantissa = MemoizerSpec 0, fn_exponent = 1\<rparr>)" 6 7]
  by simp

section \<open>Factories on a closed Context\<close>

lemma closed_newMemoizeSpec:
  "Context_closed ctx w \<Longrightarrow> Context_newMemoizeSpec (Some ctx) digits w = Inl ContextClosed"
  by (simp add: Context_closed_def Context_newMemoizeSpec_def deref_def)

lemma closed_newNumber:
  "Context_closed ctx w \<Longrightarrow> Context_newNumber (Some ctx) digits e w = Inl ContextClosed"
  by (simp add: Context_newNumber_def Context_newFiniteNumber_def closed_newMemoizeSpec)

lemma closed_newFiniteNumber:
  "Context_closed ctx w \<Longrightarrow> Context_newFiniteNumber (Some ctx) digits e w = Inl ContextClosed"
  by (simp add: Context_newFiniteNumber_def closed_newMemoizeSpec)

lemma closed_nRootFrac:
  assumes "Context_closed ctx w" "0 < num" "0 < denom"
    "m = newSqrtManager \<or> m = newCubeRootManager"
  shows "Context_nRootFrac (Some ctx) num denom m w = Some (Inl ContextClosed)"
proof -
  from Generate_returns[OF assms(2,3,4)]
  obtain digits e where "nrootGenerator_Generate num denom m = Some (Inr (digits, e))"
    by blast
  then show ?thesis
    using assms(1,2,3)
    by (simp add: Context_nRootFrac_def checkNumDenom_def newNRootGenerator_def closed_newNumber)
qed

lemma repeating_first:
  assumes "fixed @ repeating \<noteq> []"
  shows "\<exists>d'. digits_call (RepeatingFn fixed repeating 0 0) = Inr (hd (fixed @ repeating), d')"
  using assms by (cases fixed; cases repeating) (simp_all add: hd_conv_nth)

lemma closed_NewNumberForTesting:
  assumes "Context_closed ctx w" "validDigits fixed" "validDigits repeating"
    "fixed @ repeating \<noteq> []" "hd (fixed @ repeating) \<noteq> 0"
  shows "Context_NewNumberForTesting (Some ctx) fixed repeating e w = Some (Inl ContextClosed)"
proof -
  from repeating_first[OF assms(4)] obtain d' where
    d: "digits_call (RepeatingFn fixed repeating 0 0) = Inr (hd (fixed @ repeating), d')"
    by blast
  have ne: "\<not> (length fixed = 0 \<and> length repeating = 0)" using assms(4) by simp
  show ?thesis
    using assms(1,2,3,5) d ne
    by (simp add: Context_NewNumberForTesting_def newRepeatingGenerator_def closed_newNumber
        closed_newFiniteNumber)
qed

lemma closed_NewNumber:
  assumes "Context_closed ctx w" "Generate g = Some (Inr (digits, e))"
    "digits_call digits = Inr (first, digits')" "1 \<le> first" "first \<le> 9"
  shows "Context_NewNumber (Some ctx) g w = Some (Inl ContextClosed)"
  using assms by (simp add: Context_NewNumber_def digitOutOfRange_def closed_newNumber)

text \<open>
  Claim C4, as stated, on a Context that a caller declared and closed: \<open>Sqrt(0)\<close>
  and \<open>NewNumberForTesting\<close> with no digits satisfy the preconditions of their
  factories and return \<open>zeroNumber\<close>; they do not panic.
\<close>

theorem closed_context_counterexample:
  "new_Context initialWorld = (closedContext, worldWithContext) \<and>
   Context_Close (Some closedContext) worldWithContext =
     Some (Inr (Some closedContext, worldAfterClose)) \<and>
   Context_closed closedContext worldAfterClose \<and>
   Context_Sqrt (Some closedContext) 0 worldAfterClose =
     Some (Inr (FiniteNum zeroNumber, Some closedContext, worldAfterClose)) \<and>
   Context_NewNumberForTesting (Some closedContext) [] [] 3 worldAfterClose =
     Some (Inr (Inr (FiniteNum zeroNumber), Some closedContext, worldAfterClose))"
  by (simp add: new_Context_def initialWorld_def closedContext_def worldWithContext_def
      worldAfterClose_def Context_Close_def deref_def Context_closed_def Context_Sqrt_def
      Context_nRootFrac_def checkNumDenom_def Context_NewNumberForTesting_def)

text \<open>
  Claim C4, amended: on a closed explicit Context, every factory call that has to
  build a memoizer panics with \<open>Context closed\<close>: the root factories on a positive
  radicand, \<open>NewNumberForTesting\<close> and \<open>NewFiniteNumber\<close> on valid digits that do not
  start with 0, and \<open>NewNumber\<close> on a generator whose first digit is in 1..9. A call
  whose result is zero returns \<open>zeroNumber\<close> without looking at the Context.
\<close>

theorem closed_context_factories:
  assumes "Context_closed ctx w"
  shows "(0 < num \<and> 0 < denom \<and> (m = newSqrtManager \<or> m = newCubeRootManager) \<longrightarrow>
            Context_nRootFrac (Some ctx) num denom m w = Some (Inl ContextClosed)) \<and>
         (0 < radican \<longrightarrow>
            Context_Sqrt (Some ctx) radican w = Some (Inl ContextClosed) \<and>
            Context_CubeRoot (Some ctx) radican w = Some (Inl ContextClosed)) \<and>
         (0 < num \<and> 0 < denom \<longrightarrow>
            Context_SqrtRat (Some ctx) num denom w = Some (Inl ContextClosed) \<and>
            Context_CubeRootRat (Some ctx) num denom w = Some (Inl ContextClosed)) \<and>
         (validDigits fixed \<and> validDigits repeating \<and> fixed @ repeating \<noteq> [] \<and>
          hd (fixed @ repeating) \<noteq> 0 \<longrightarrow>
            Context_NewNumberForTesting (Some ctx) fixed repeating e w =
              Some (Inl ContextClosed)) \<and>
         (validDigits fixed \<and> fixed \<noteq> [] \<and> hd fixed \<noteq> 0 \<longrightarrow>
            Context_NewFiniteNumber (Some ctx) fixed e w = Some (Inl ContextClosed)) \<and>
         (Generate g = Some (Inr (digits, e')) \<and> digits_call digits = Inr (first, digits') \<and>
          1 \<le> first \<and> first \<le> 9 \<longrightarrow>
            Context_NewNumber (Some ctx) g w = Some (Inl ContextClosed)) \<and>
         (0 < denom \<longrightarrow>
            Context_nRootFrac (Some ctx) 0 denom m w =
              Some (Inr (FiniteNum zeroNumber, Some ctx, w)))"
proof -
  have a: "Context_nRootFrac (Some ctx) num denom m w = Some (Inl ContextClosed)"
    if "0 < num" "0 < denom" "m = newSqrtManager \<or> m = newCubeRootManager" for num denom m
    using assms that by (rule closed_nRootFrac)
  have b: "Context_NewNumberForTesting (Some ctx) fixed repeating e w = Some (Inl ContextClosed)"
    if "validDigits fixed" "validDigits repeating" "fixed @ repeating \<noteq> []"
      "hd (fixed @ repeating) \<noteq> 0" for repeating
    using assms that by (rule closed_NewNumberForTesting)
  have c: "Context_NewFiniteNumber (Some ctx) fixed e w = Some (Inl ContextClosed)"
    if "validDigits fixed" "fixed \<noteq> []" "hd fixed \<noteq> 0"
    using b[of "[]"] that by (simp add: Context_NewFiniteNumber_def validDigits_def)
  have d: "Context_NewNumber (Some ctx) g w = Some (Inl ContextClosed)"
    if "Generate g = Some (Inr (digits, e'))" "digits_call digits = Inr (first, digits')"
      "1 \<le> first" "first \<le> 9"
    using assms that by (rule closed_NewNumber)
  have z: "Context_nRootFrac (Some ctx) 0 denom m w = Some (Inr (FiniteNum zeroNumber, Some ctx, w))"
    if "0 < denom"
    using that by (rule nRootFrac_zero)
  show ?thesis
    using a b c d z
    by (simp add: Context_Sqrt_def Context_CubeRoot_def Context_SqrtRat_def
        Context_CubeRootRat_def)
qed

theorem closed_context_factories_witness:
  "Context_closed closedContext worldAfterClose \<and>
   Context_Sqrt (Some closedContext) 13 worldAfterClose = Some (Inl ContextClosed) \<and>
   Context_NewFiniteNumber (Some closedContext) [5, 0, 1] 3 worldAfterClose =
     Some (Inl ContextClosed) \<and>
   Context_NewNumber (Some closedContext) (UserGenerator (\<lambda>k. 7) 0) worldAfterClose =
     Some (Inl ContextClosed)"
proof -
  have cl: "Context_closed closedContext worldAfterClose"
    by (simp add: Context_closed_def closedContext_def worldAfterClose_def)
  show ?thesis
    using cl closed_context_factories[OF cl, of 1 1 newSqrtManager 13 "[5, 0, 1]" "[]" 3
        "UserGenerator (\<lambda>k. 7) 0" "UserFn (\<lambda>k. 7) 0" 0 7 "UserFn (\<lambda>k. 7) 1"]
    by (simp add: validDigits_def digitOutOfRange_def)
qed

section \<open>The square root of 100489\<close>

lemma sqrt_100489_eval:
  "(case Sqrt 100489 initialWorld of
      Some (Inr (n, c, w)) \<Rightarrow>
        (case Number_String n w of
           Some (Inr (s, w')) \<Rightarrow>
             s = ''317'' \<and> Number_Exponent n = 3 \<and>
             (case Number_At w' n 3 of Some (Inr (d, w'')) \<Rightarrow> d = - 1 | _ \<Rightarrow> False) \<and>
             (case Number_At w n 3 of Some (Inr (d, w'')) \<Rightarrow> d = - 1 | _ \<Rightarrow> False) \<and>
             (case Number_At w n 0 of Some (Inr (d, w'')) \<Rightarrow> d = 3 | _ \<Rightarrow> False) \<and>
             (case Number_At w n 1 of Some (Inr (d, w'')) \<Rightarrow> d = 1 | _ \<Rightarrow> False) \<and>
             (case Number_At w n 2 of Some (Inr (d, w'')) \<Rightarrow> d = 7 | _ \<Rightarrow> False)
         | _ \<Rightarrow> False)
    | _ \<Rightarrow> False)"
  by code_simp

text \<open>
  Claim C8. \<open>Sqrt(100489)\<close> returns a Number whose \<open>String()\<close> is \<open>"317"\<close>, whose
  \<open>Exponent()\<close> is 3 and whose \<open>At(3)\<close> is \<open>-1\<close>, before and after \<open>String()\<close> has
  been called: the mantissa is the three digits 3, 1, 7 and ends there.
\<close>

theorem sqrt_100489:
  "\<exists>n c w w' w0 w1 w2 w3 w3'. Sqrt 100489 initialWorld = Some (Inr (n, c, w)) \<and>
     Number_String n w = Some (Inr (''317'', w')) \<and>
     Number_Exponent n = 3 \<and>
     Number_At w n 0 = Some (Inr (3, w0)) \<and>
     Number_At w n 1 = Some (Inr (1, w1)) \<and>
     Number_At w n 2 = Some (Inr (7, w2)) \<and>
     Number_At w n 3 = Some (Inr (- 1, w3)) \<and>
     Number_At w' n 3 = Some (Inr (- 1, w3'))"
proof (cases "Sqrt 100489 initialWorld")
  case None
  with sqrt_100489_eval show ?thesis by simp
next
  case (Some r)
  show ?thesis
  proof (cases r)
    case (Inl e)
    with Some sqrt_100489_eval show ?thesis by simp
  next
    case (Inr t)
    obtain n c w where t: "t = (n, c, w)" by (cases t)
    note S = Some[unfolded Inr t]
    from sqrt_100489_eval have e: "(case Number_String n w of
           Some (Inr (s, w')) \<Rightarrow>
             s = ''317'' \<and> Number_Exponent n = 3 \<and>
             (case Number_At w' n 3 of Some (Inr (d, w'')) \<Rightarrow> d = - 1 | _ \<Rightarrow> False) \<and>
             (case Number_At w n 3 of Some (Inr (d, w'')) \<Rightarrow> d = - 1 | _ \<Rightarrow> False) \<and>
             (case Number_At w n 0 of Some (Inr (d, w'')) \<Rightarrow> d = 3 | _ \<Rightarrow> False) \<and>
             (case Number_At w n 1 of Some (Inr (d, w'')) \<Rightarrow> d = 1 | _ \<Rightarrow> False) \<and>
             (case Number_At w n 2 of Some (Inr (d, w'')) \<Rightarrow> d = 7 | _ \<Rightarrow> False)
         | _ \<Rightarrow> False)"
      by (simp only: S option.case sum.case prod.case)
    have at: "(case x of Some (Inr (d, w'')) \<Rightarrow> d = v | _ \<Rightarrow> False) \<Longrightarrow> \<exists>w''. x = Some (Inr (v, w''))"
      for x :: "(panic + int \<times> world) option" and v
      by (auto split: option.split_asm sum.split_asm)
    from e obtain w' where s: "Number_String n w = Some (Inr (''317'', w'))"
      and r: "Number_Exponent n = 3"
        "(case Number_At w' n 3 of Some (Inr (d, w'')) \<Rightarrow> d = - 1 | _ \<Rightarrow> False)"
        "(case Number_At w n 3 of Some (Inr (d, w'')) \<Rightarrow> d = - 1 | _ \<Rightarrow> False)"
        "(case Number_At w n 0 of Some (Inr (d, w'')) \<Rightarrow> d = 3 | _ \<Rightarrow> False)"
        "(case Number_At w n 1 of Some (Inr (d, w'')) \<Rightarrow> d = 1 | _ \<Rightarrow> False)"
        "(case Number_At w n 2 of Some (Inr (d, w'')) \<Rightarrow> d = 7 | _ \<Rightarrow> False)"
      by (cases "Number_String n w") (auto split: sum.split_asm)
    from r(2-6)[THEN at] S s r(1) show ?thesis by blast
  qed
qed

end
